theory Spec2Isabelle
  imports Complex_Main "HOL-Library.Log_Nat"
begin

section \<open>The decentralized blockchain node\<close>

text \<open>
  A shallow embedding of \<^verbatim>\<open>decentralized-blockchain-nodejs/index.js\<close>: the block
  record, the hash of a block's fields, the proof-of-work search, the validation of a
  block against its parent and of a whole chain, the three ways the chain grows or is
  swapped (\<^verbatim>\<open>setBlock\<close>, \<^verbatim>\<open>mineBlock\<close>, \<^verbatim>\<open>replaceChain\<close>) and the two
  route handlers that feed it from peers (\<^verbatim>\<open>POST /api/receive-block\<close>,
  \<^verbatim>\<open>POST /api/resolve\<close>).

  Two functions of the JavaScript runtime are not code of the repository and are taken
  as parameters of every definition that reaches them: \<open>sha256\<close>, which stands for
  \<^verbatim>\<open>crypto.createHash("sha256").update(s).digest("hex")\<close>, and \<open>stringify\<close>, which
  stands for \<^verbatim>\<open>JSON.stringify\<close>. The clock \<^verbatim>\<open>Date.now()\<close> is an argument
  \<open>now\<close> of the operations that read it.

  The development has two layers. The first types the numeric fields of a block as
  natural numbers, which is what the node's own mining produces, and covers the ledger
  operations. The second takes the fields as the doubles that a request body can carry,
  and covers the validation of a block from the wire, the handler that receives it, and
  the search for a nonce at a difficulty that a request supplies.
\<close>

subsection \<open>Values and blocks\<close>

text \<open>
  JSON values with integers for numbers, for the payload of the blocks that the node
  builds itself. The values of a request body as \<^verbatim>\<open>JSON.parse\<close> yields them, with every
  number a double, are the type \<open>jsvalue\<close> further down.
\<close>

datatype json =
    JNull
  | JBool bool
  | JNum int
  | JStr string
  | JArr "json list"
  | JObj "(string \<times> json) list"

text \<open>
  \<^verbatim>\<open>class Block\<close>. The numeric fields have the types the node gives them when it
  builds a block: \<open>index\<close> is a height, \<open>timestamp\<close> a count of milliseconds,
  \<open>nonce\<close> a counter that starts at 0, and \<open>difficulty\<close> a number of leading zero
  characters, which the code hands to \<^verbatim>\<open>"0".repeat\<close> as a count. They are natural
  numbers here: this record is the block as the node's own mining produces it. A block as
  a peer or a client sends it, whose numbers can be fractions, negative, or at or beyond
  \<open>2^53\<close>, is the record \<open>Block_js\<close> further down, with the same functions over it;
  the lemmas \<open>isValidNewBlock_js_typed\<close>, \<open>isChainValid_js_typed\<close> and
  \<open>proofOfWork_js_typed\<close> relate the two.
\<close>

record Block =
  index :: nat
  timestamp :: nat
  data :: json
  prevHash :: string
  nonce :: nat
  difficulty :: nat
  hash :: string

text \<open>\<^verbatim>\<open>s.repeat(n)\<close> and \<^verbatim>\<open>s.startsWith(t)\<close> of JavaScript strings.\<close>

definition repeat :: "string \<Rightarrow> nat \<Rightarrow> string" where
  "repeat s n = concat (replicate n s)"

definition startsWith :: "string \<Rightarrow> string \<Rightarrow> bool" where
  "startsWith s t = (take (length t) s = t)"

text \<open>The number of leading \<^verbatim>\<open>0\<close> characters of a string, in which the claims are worded.\<close>

definition leadingZeros :: "string \<Rightarrow> nat" where
  "leadingZeros s = length (takeWhile (\<lambda>c. c = CHR ''0'') s)"

subsection \<open>Hashing and proof of work\<close>

text \<open>
  \<^verbatim>\<open>calculateHash({ index, timestamp, data, prevHash, nonce, difficulty })\<close>: the object
  literal with its six keys in this order is serialized and digested. The \<open>hash\<close> field
  of a block passed in is not among the six.
\<close>

definition payload :: "nat \<Rightarrow> nat \<Rightarrow> json \<Rightarrow> string \<Rightarrow> nat \<Rightarrow> nat \<Rightarrow> json" where
  "payload idx ts dat ph n d =
     JObj [(''index'', JNum (int idx)), (''timestamp'', JNum (int ts)), (''data'', dat),
           (''prevHash'', JStr ph), (''nonce'', JNum (int n)), (''difficulty'', JNum (int d))]"

definition calculateHash ::
  "(string \<Rightarrow> string) \<Rightarrow> (json \<Rightarrow> string) \<Rightarrow> nat \<Rightarrow> nat \<Rightarrow> json \<Rightarrow> string \<Rightarrow> nat \<Rightarrow> nat \<Rightarrow> string" where
  "calculateHash sha256 stringify idx ts dat ph n d = sha256 (stringify (payload idx ts dat ph n d))"

text \<open>
  \<^verbatim>\<open>proofOfWork\<close>: \<^verbatim>\<open>while (true)\<close> over the nonce, with the only exit the
  \<^verbatim>\<open>return\<close> on a hash that starts with the target. The loop need not end, so it is
  a partial function: \<open>None\<close> is the run that never returns.
\<close>

partial_function (option) proofOfWork_loop ::
  "(string \<Rightarrow> string) \<Rightarrow> (json \<Rightarrow> string) \<Rightarrow> nat \<Rightarrow> nat \<Rightarrow> json \<Rightarrow> string \<Rightarrow> nat \<Rightarrow> string \<Rightarrow> nat
     \<Rightarrow> (nat \<times> string) option" where
  "proofOfWork_loop sha256 stringify idx ts dat ph d target n =
     (let h = calculateHash sha256 stringify idx ts dat ph n d in
      if startsWith h target then Some (n, h)
      else proofOfWork_loop sha256 stringify idx ts dat ph d target (n + 1))"

declare proofOfWork_loop.simps [code]

definition proofOfWork ::
  "(string \<Rightarrow> string) \<Rightarrow> (json \<Rightarrow> string) \<Rightarrow> nat \<Rightarrow> nat \<Rightarrow> json \<Rightarrow> string \<Rightarrow> nat \<Rightarrow> (nat \<times> string) option" where
  "proofOfWork sha256 stringify idx ts dat ph d =
     (let n = 0; target = repeat ''0'' d in
      proofOfWork_loop sha256 stringify idx ts dat ph d target n)"

subsection \<open>Validation\<close>

text \<open>\<^verbatim>\<open>isValidNewBlock(newBlock, prevBlock)\<close>: four checks, each an early return.\<close>

definition isValidNewBlock ::
  "(string \<Rightarrow> string) \<Rightarrow> (json \<Rightarrow> string) \<Rightarrow> Block \<Rightarrow> Block \<Rightarrow> bool" where
  "isValidNewBlock sha256 stringify newBlock prevBlock =
     (if index prevBlock + 1 \<noteq> index newBlock then False
      else if hash prevBlock \<noteq> prevHash newBlock then False
      else let checkHash = calculateHash sha256 stringify (index newBlock) (timestamp newBlock)
                 (data newBlock) (prevHash newBlock) (nonce newBlock) (difficulty newBlock) in
        if checkHash \<noteq> hash newBlock then False
        else if \<not> startsWith (hash newBlock) (repeat ''0'' (difficulty newBlock)) then False
        else True)"

text \<open>
  \<^verbatim>\<open>isChainValid(chain)\<close>: false on the empty array, then the loop
  \<^verbatim>\<open>for (let i = 1; i < chain.length; i++)\<close>, which returns false at the first pair
  that fails.
\<close>

function isChainValid_loop ::
  "(string \<Rightarrow> string) \<Rightarrow> (json \<Rightarrow> string) \<Rightarrow> Block list \<Rightarrow> nat \<Rightarrow> bool" where
  "isChainValid_loop sha256 stringify c i =
     (if i < length c then
        (if \<not> isValidNewBlock sha256 stringify (c ! i) (c ! (i - 1)) then False
         else isChainValid_loop sha256 stringify c (i + 1))
      else True)"
  by pat_completeness auto
termination
  by (relation "measure (\<lambda>(sha256, stringify, c, i). length c - i)") auto

declare isChainValid_loop.simps [simp del]

definition isChainValid ::
  "(string \<Rightarrow> string) \<Rightarrow> (json \<Rightarrow> string) \<Rightarrow> Block list \<Rightarrow> bool" where
  "isChainValid sha256 stringify c =
     (if length c = 0 then False else isChainValid_loop sha256 stringify c 1)"

subsection \<open>The ledger\<close>

text \<open>
  \<^verbatim>\<open>class Blockchain\<close>: the default difficulty, the chain in memory, and the
  contents of the file \<^verbatim>\<open>dbFile\<close> that \<^verbatim>\<open>save()\<close> overwrites with the chain.
\<close>

record Blockchain =
  defaultDifficulty :: nat
  chain_blocks :: "Block list"
  dbFile :: "Block list"

datatype error = TypeError | RangeError | Error string

definition save :: "Blockchain \<Rightarrow> Blockchain" where
  "save bc = bc\<lparr>dbFile := chain_blocks bc\<rparr>"

text \<open>
  \<^verbatim>\<open>getLatestBlock()\<close> is \<^verbatim>\<open>this.chain[this.chain.length - 1]\<close>: \<^verbatim>\<open>undefined\<close>
  (here \<open>None\<close>) on an empty chain, and reading a field of it raises a TypeError.
\<close>

definition getLatestBlock :: "Blockchain \<Rightarrow> Block option" where
  "getLatestBlock bc =
     (if chain_blocks bc = [] then None else Some (chain_blocks bc ! (length (chain_blocks bc) - 1)))"

text \<open>
  \<^verbatim>\<open>createGenesisBlock()\<close> and the constructor, which takes what \<^verbatim>\<open>load()\<close> read
  from the file (the empty list when there is no file or it does not parse).
\<close>

definition createGenesisBlock ::
  "(string \<Rightarrow> string) \<Rightarrow> (json \<Rightarrow> string) \<Rightarrow> nat \<Rightarrow> Block option" where
  "createGenesisBlock sha256 stringify now =
     (let dat = JObj [(''type'', JStr ''GENESIS''), (''note'', JStr ''Decentralized genesis'')];
          ts = now;
          ph = repeat ''0'' 64;
          d = 1 in
      case proofOfWork sha256 stringify 0 ts dat ph d of
        None \<Rightarrow> None
      | Some (n, h) \<Rightarrow>
          Some \<lparr>index = 0, timestamp = ts, data = dat, prevHash = ph, nonce = n,
                difficulty = d, hash = h\<rparr>)"

definition new_Blockchain ::
  "(string \<Rightarrow> string) \<Rightarrow> (json \<Rightarrow> string) \<Rightarrow> nat \<Rightarrow> Block list \<Rightarrow> nat \<Rightarrow> Blockchain option" where
  "new_Blockchain sha256 stringify now loaded dd =
     (let bc = \<lparr>defaultDifficulty = dd, chain_blocks = loaded, dbFile = loaded\<rparr> in
      if length (chain_blocks bc) = 0 then
        (case createGenesisBlock sha256 stringify now of
           None \<Rightarrow> None
         | Some genesis \<Rightarrow> Some (save (bc\<lparr>chain_blocks := chain_blocks bc @ [genesis]\<rparr>)))
      else Some bc)"

text \<open>
  \<^verbatim>\<open>setBlock(data)\<close>. The result is \<open>None\<close> when the search never returns,
  \<open>Some (Inl e)\<close> when the call throws, and \<open>Some (Inr (block, ledger))\<close> when it
  returns the block and leaves the ledger so.
\<close>

definition setBlock ::
  "(string \<Rightarrow> string) \<Rightarrow> (json \<Rightarrow> string) \<Rightarrow> nat \<Rightarrow> Blockchain \<Rightarrow> json
     \<Rightarrow> (error + Block \<times> Blockchain) option" where
  "setBlock sha256 stringify now bc dat =
     (case getLatestBlock bc of
        None \<Rightarrow> Some (Inl TypeError)
      | Some prev \<Rightarrow>
          (let idx = index prev + 1;
               ts = now;
               d = defaultDifficulty bc in
           case proofOfWork sha256 stringify idx ts dat (hash prev) d of
             None \<Rightarrow> None
           | Some (n, h) \<Rightarrow>
               (let block = \<lparr>index = idx, timestamp = ts, data = dat, prevHash = hash prev,
                              nonce = n, difficulty = d, hash = h\<rparr> in
                if \<not> isValidNewBlock sha256 stringify block prev
                then Some (Inl (Error ''Invalid block''))
                else Some (Inr (block, save (bc\<lparr>chain_blocks := chain_blocks bc @ [block]\<rparr>))))))"

text \<open>
  \<^verbatim>\<open>mineBlock({ data, difficulty })\<close>. The difficulty asked for is whatever the
  request body held under that key: \<open>None\<close> is \<^verbatim>\<open>undefined\<close> (no such key), and
  \<^verbatim>\<open>typeof difficulty === "number"\<close> holds of \<open>Some (JNum k)\<close> only.
\<close>

definition mineBlock ::
  "(string \<Rightarrow> string) \<Rightarrow> (json \<Rightarrow> string) \<Rightarrow> nat \<Rightarrow> Blockchain \<Rightarrow> json \<Rightarrow> json option
     \<Rightarrow> (error + Block \<times> Blockchain) option" where
  "mineBlock sha256 stringify now bc dat asked =
     (case getLatestBlock bc of
        None \<Rightarrow> Some (Inl TypeError)
      | Some prev \<Rightarrow>
          (let idx = index prev + 1;
               ts = now;
               diff = (case asked of
                         Some (JNum k) \<Rightarrow> if k > 0 then nat k else defaultDifficulty bc
                       | _ \<Rightarrow> defaultDifficulty bc) in
           case proofOfWork sha256 stringify idx ts dat (hash prev) diff of
             None \<Rightarrow> None
           | Some (n, h) \<Rightarrow>
               (let block = \<lparr>index = idx, timestamp = ts, data = dat, prevHash = hash prev,
                              nonce = n, difficulty = diff, hash = h\<rparr> in
                if \<not> isValidNewBlock sha256 stringify block prev
                then Some (Inl (Error ''Invalid block after mining''))
                else Some (Inr (block, save (bc\<lparr>chain_blocks := chain_blocks bc @ [block]\<rparr>))))))"

text \<open>\<^verbatim>\<open>replaceChain(newChain)\<close>: the answer and the ledger after the call.\<close>

definition replaceChain ::
  "(string \<Rightarrow> string) \<Rightarrow> (json \<Rightarrow> string) \<Rightarrow> Blockchain \<Rightarrow> Block list \<Rightarrow> bool \<times> Blockchain" where
  "replaceChain sha256 stringify bc newChain =
     (if length newChain \<le> length (chain_blocks bc) then (False, bc)
      else if \<not> isChainValid sha256 stringify newChain then (False, bc)
      else (True, save (bc\<lparr>chain_blocks := newChain\<rparr>)))"

subsection \<open>Blocks and chains from peers\<close>

text \<open>
  \<^verbatim>\<open>POST /api/receive-block\<close>. The three answers are 200 with the new height, 409
  \<^verbatim>\<open>"Invalid or not next"\<close>, and 400 from the \<^verbatim>\<open>catch\<close>; with no latest block,
  \<^verbatim>\<open>isValidNewBlock\<close> reads \<^verbatim>\<open>prevBlock.index\<close> of \<^verbatim>\<open>undefined\<close> and throws.
\<close>

datatype receive_response = Adopted nat | NotNext | BadRequest error

definition receive_block ::
  "(string \<Rightarrow> string) \<Rightarrow> (json \<Rightarrow> string) \<Rightarrow> Blockchain \<Rightarrow> Block \<Rightarrow> receive_response \<times> Blockchain" where
  "receive_block sha256 stringify bc incoming =
     (case getLatestBlock bc of
        None \<Rightarrow> (BadRequest TypeError, bc)
      | Some prev \<Rightarrow>
          (let newBlock = incoming in
           if isValidNewBlock sha256 stringify newBlock prev then
             (let bc' = save (bc\<lparr>chain_blocks := chain_blocks bc @ [newBlock]\<rparr>) in
              (Adopted (index newBlock), bc'))
           else (NotNext, bc)))"

text \<open>
  \<^verbatim>\<open>POST /api/resolve\<close>. The handler validates each candidate itself, with its own
  loop: the re-hash, the link to the previous block and the target, and no comparison
  of indices.
\<close>

function resolve_valid_loop ::
  "(string \<Rightarrow> string) \<Rightarrow> (json \<Rightarrow> string) \<Rightarrow> Block list \<Rightarrow> nat \<Rightarrow> bool" where
  "resolve_valid_loop sha256 stringify candidate i =
     (if i < length candidate then
        (let prev = candidate ! (i - 1);
             curr = candidate ! i;
             calcHash = sha256 (stringify (payload (index curr) (timestamp curr) (data curr)
                          (prevHash curr) (nonce curr) (difficulty curr))) in
         if calcHash \<noteq> hash curr \<or> prevHash curr \<noteq> hash prev
            \<or> \<not> startsWith (hash curr) (repeat ''0'' (difficulty curr))
         then False
         else resolve_valid_loop sha256 stringify candidate (i + 1))
      else True)"
  by pat_completeness auto
termination
  by (relation "measure (\<lambda>(sha256, stringify, candidate, i). length candidate - i)") auto

declare resolve_valid_loop.simps [simp del]

text \<open>
  The loop over the peers. What a peer's fetch brought is \<open>Some candidate\<close>, or
  \<open>None\<close> when the request failed or the answer held no array under \<^verbatim>\<open>chain\<close>;
  the inner \<^verbatim>\<open>try\<close> swallows the failure and the loop goes on.
\<close>

fun resolve_peers ::
  "(string \<Rightarrow> string) \<Rightarrow> (json \<Rightarrow> string) \<Rightarrow> Block list \<Rightarrow> Block list option list \<Rightarrow> Block list" where
  "resolve_peers sha256 stringify bestChain [] = bestChain"
| "resolve_peers sha256 stringify bestChain (None # fetched) =
     resolve_peers sha256 stringify bestChain fetched"
| "resolve_peers sha256 stringify bestChain (Some candidate # fetched) =
     (if length candidate > length bestChain then
        (let valid = resolve_valid_loop sha256 stringify candidate 1 in
         if valid then resolve_peers sha256 stringify candidate fetched
         else resolve_peers sha256 stringify bestChain fetched)
      else resolve_peers sha256 stringify bestChain fetched)"

definition resolve ::
  "(string \<Rightarrow> string) \<Rightarrow> (json \<Rightarrow> string) \<Rightarrow> Blockchain \<Rightarrow> Block list option list \<Rightarrow> bool \<times> Blockchain" where
  "resolve sha256 stringify bc fetched =
     (let bestChain = resolve_peers sha256 stringify (chain_blocks bc) fetched in
      replaceChain sha256 stringify bc bestChain)"

subsection \<open>Sequences of appends\<close>

text \<open>
  The two ways the node appends a block of its own, each with the clock reading of the
  call, and a run of such calls in which every call returned its block.
\<close>

datatype append_call = SetBlock json | MineBlock json "json option"

fun append ::
  "(string \<Rightarrow> string) \<Rightarrow> (json \<Rightarrow> string) \<Rightarrow> Blockchain \<Rightarrow> nat \<times> append_call
     \<Rightarrow> (error + Block \<times> Blockchain) option" where
  "append sha256 stringify bc (now, SetBlock dat) = setBlock sha256 stringify now bc dat"
| "append sha256 stringify bc (now, MineBlock dat asked) = mineBlock sha256 stringify now bc dat asked"

fun appends ::
  "(string \<Rightarrow> string) \<Rightarrow> (json \<Rightarrow> string) \<Rightarrow> Blockchain \<Rightarrow> (nat \<times> append_call) list
     \<Rightarrow> Blockchain option" where
  "appends sha256 stringify bc [] = Some bc"
| "appends sha256 stringify bc (call # calls) =
     (case append sha256 stringify bc call of
        Some (Inr (block, bc')) \<Rightarrow> appends sha256 stringify bc' calls
      | _ \<Rightarrow> None)"

text \<open>The object that \<^verbatim>\<open>calculateHash(block)\<close> serializes.\<close>

abbreviation hashed :: "Block \<Rightarrow> json" where
  "hashed b \<equiv> payload (index b) (timestamp b) (data b) (prevHash b) (nonce b) (difficulty b)"

text \<open>The difficulty that \<^verbatim>\<open>mineBlock\<close> settles on, its constant \<^verbatim>\<open>diff\<close>.\<close>

definition asked_difficulty :: "Blockchain \<Rightarrow> json option \<Rightarrow> nat" where
  "asked_difficulty bc asked =
     (case asked of
        Some (JNum k) \<Rightarrow> if k > 0 then nat k else defaultDifficulty bc
      | _ \<Rightarrow> defaultDifficulty bc)"

text \<open>What the loop of \<^verbatim>\<open>POST /api/resolve\<close> asks of a block and the one before it.\<close>

definition resolve_pair_ok ::
  "(string \<Rightarrow> string) \<Rightarrow> (json \<Rightarrow> string) \<Rightarrow> Block \<Rightarrow> Block \<Rightarrow> bool" where
  "resolve_pair_ok sha256 stringify c p =
     (sha256 (stringify (hashed c)) = hash c \<and> prevHash c = hash p
      \<and> startsWith (hash c) (repeat ''0'' (difficulty c)))"

subsection \<open>A small runtime for the examples\<close>

text \<open>
  The examples below run the definitions on a serializer and a digest that can be
  computed by hand: the text depends on the nonce alone, and starts with \<^verbatim>\<open>0\<close> from
  nonce 2 on. The theorems themselves hold for every \<open>sha256\<close> and \<open>stringify\<close>.
\<close>

definition toy_stringify :: "json \<Rightarrow> string" where
  "toy_stringify j =
     (case j of
        JObj kvs \<Rightarrow>
          (case map_of kvs ''nonce'' of
             Some (JNum k) \<Rightarrow> (if k \<ge> 2 then ''0'' else ''1'') @ replicate (nat k) (CHR ''a'')
           | _ \<Rightarrow> [])
      | _ \<Rightarrow> [])"

definition toy_sha256 :: "string \<Rightarrow> string" where
  "toy_sha256 s = s"

definition toy_genesis :: Block where
  "toy_genesis =
     \<lparr>index = 0, timestamp = 5,
      data = JObj [(''type'', JStr ''GENESIS''), (''note'', JStr ''Decentralized genesis'')],
      prevHash = replicate 64 (CHR ''0''), nonce = 2, difficulty = 1, hash = ''0aa''\<rparr>"

definition toy_block1 :: Block where
  "toy_block1 =
     \<lparr>index = 1, timestamp = 6, data = JNull, prevHash = ''0aa'', nonce = 2, difficulty = 1,
      hash = ''0aa''\<rparr>"

definition toy_easy1 :: Block where
  "toy_easy1 =
     \<lparr>index = 1, timestamp = 6, data = JNull, prevHash = ''0aa'', nonce = 0, difficulty = 0,
      hash = ''1''\<rparr>"

definition toy_block2 :: Block where
  "toy_block2 =
     \<lparr>index = 2, timestamp = 7, data = JStr ''a'', prevHash = ''0aa'', nonce = 2, difficulty = 1,
      hash = ''0aa''\<rparr>"

definition toy_easy2 :: Block where
  "toy_easy2 =
     \<lparr>index = 2, timestamp = 7, data = JStr ''a'', prevHash = ''0aa'', nonce = 0, difficulty = 0,
      hash = ''1''\<rparr>"

text \<open>
  A block of difficulty 0 on top of \<open>prev\<close>, carrying the hash of its own fields, for
  any index; and a first block for it to stand on. They are built with the \<open>sha256\<close>
  and \<open>stringify\<close> given, so what is proved of them holds for the real digest.
\<close>

definition easy_block :: "(string \<Rightarrow> string) \<Rightarrow> (json \<Rightarrow> string) \<Rightarrow> nat \<Rightarrow> Block \<Rightarrow> Block" where
  "easy_block sha256 stringify idx prev =
     \<lparr>index = idx, timestamp = 1, data = JNull, prevHash = hash prev, nonce = 0, difficulty = 0,
      hash = calculateHash sha256 stringify idx 1 JNull (hash prev) 0 0\<rparr>"

definition plain_genesis :: Block where
  "plain_genesis =
     \<lparr>index = 0, timestamp = 0, data = JNull, prevHash = repeat ''0'' 64, nonce = 0,
      difficulty = 1, hash = ''00''\<rparr>"

subsection \<open>JavaScript numbers\<close>

text \<open>
  Every number of the program is an IEEE 754 double. The blocks that the node mines carry
  natural numbers, and the records above type them so. A block that arrives in the body of
  \<^verbatim>\<open>POST /api/receive-block\<close>, in a peer's chain or in the saved file carries whatever
  number its JSON text denotes: a fraction, a negative number, an integer at or beyond
  \<open>2^53\<close>, or a literal such as \<^verbatim>\<open>1e400\<close>, which \<^verbatim>\<open>JSON.parse\<close> reads as
  \<^verbatim>\<open>Infinity\<close>. The rest of this section gives the same functions of the code over these
  numbers.

  A finite double is the rational number it denotes. \<^verbatim>\<open>-0\<close> is identified with \<open>0\<close>:
  \<^verbatim>\<open>+ 1\<close>, \<^verbatim>\<open>!==\<close>, \<^verbatim>\<open>repeat\<close> and \<^verbatim>\<open>JSON.stringify\<close> do not tell them apart.
  There is no \<^verbatim>\<open>NaN\<close>: \<^verbatim>\<open>JSON.parse\<close> yields none, and \<^verbatim>\<open>x + 1\<close> yields none from
  an \<open>x\<close> that is a number.
\<close>

datatype number = Finite rat | PosInf | NegInf

text \<open>
  Rounding of a rational to the nearest double, ties to the even significand: 53 bits of
  significand, the least exponent \<open>-1074\<close> of a subnormal, overflow to an infinity from
  \<open>2^1024\<close>.
\<close>

definition round_half_even :: "rat \<Rightarrow> int" where
  "round_half_even s =
     (let f = \<lfloor>s\<rfloor>; r = s - of_int f in
      if r < 1 / 2 then f
      else if 1 / 2 < r then f + 1
      else if even f then f else f + 1)"

definition floor_log2 :: "rat \<Rightarrow> int" where
  "floor_log2 q =
     (let (a, b) = quotient_of q; k = bitlen a - bitlen b in
      if 2 powi k \<le> q then k else k - 1)"

definition to_double :: "rat \<Rightarrow> number" where
  "to_double q =
     (if q = 0 then Finite 0
      else
        let e = floor_log2 \<bar>q\<bar>;
            u = 2 powi (max (e - 52) (- 1074));
            r = of_int (round_half_even (q / u)) * u
        in if 2 powi 1024 \<le> \<bar>r\<bar> then (if 0 < q then PosInf else NegInf) else Finite r)"

text \<open>\<^verbatim>\<open>x + 1\<close>, which is also the step \<^verbatim>\<open>nonce++\<close>.\<close>

definition js_add1 :: "number \<Rightarrow> number" where
  "js_add1 x = (case x of Finite q \<Rightarrow> to_double (q + 1) | PosInf \<Rightarrow> PosInf | NegInf \<Rightarrow> NegInf)"

text \<open>
  \<^verbatim>\<open>s.repeat(count)\<close> with a number for the count: the count is truncated toward zero,
  and a RangeError is raised when it is negative or infinite, or when the result would be
  longer than the longest string of the engine, \<open>maxLength\<close>, a parameter of the definitions
  that reach it.
\<close>

definition js_trunc :: "rat \<Rightarrow> int" where
  "js_trunc q = (if 0 \<le> q then \<lfloor>q\<rfloor> else \<lceil>q\<rceil>)"

definition repeat_js :: "nat \<Rightarrow> string \<Rightarrow> number \<Rightarrow> error + string" where
  "repeat_js maxLength s count =
     (case count of
        PosInf \<Rightarrow> Inl RangeError
      | NegInf \<Rightarrow> Inl RangeError
      | Finite q \<Rightarrow>
          (let n = js_trunc q in
           if n < 0 then Inl RangeError
           else if maxLength < nat n * length s then Inl RangeError
           else Inr (repeat s (nat n))))"

text \<open>
  The length of the target \<^verbatim>\<open>"0".repeat(d)\<close> when there is one: \<open>d\<close> truncated toward
  zero, if that is a count from 0 to \<open>maxLength\<close>.
\<close>

definition zero_count :: "nat \<Rightarrow> number \<Rightarrow> nat option" where
  "zero_count maxLength d =
     (case d of
        Finite q \<Rightarrow>
          if 0 \<le> js_trunc q \<and> nat (js_trunc q) \<le> maxLength then Some (nat (js_trunc q)) else None
      | PosInf \<Rightarrow> None
      | NegInf \<Rightarrow> None)"

subsection \<open>Blocks from the wire\<close>

text \<open>
  The values of JSON after \<^verbatim>\<open>JSON.parse\<close>, and a block whose \<open>index\<close>, \<open>timestamp\<close>,
  \<open>nonce\<close> and \<open>difficulty\<close> are numbers and whose \<open>prevHash\<close> and \<open>hash\<close> are strings.
  (A body with a field of another type, or without one of the fields, is not a value of
  this record.)
\<close>

datatype jsvalue =
    VNull
  | VBool bool
  | VNum number
  | VStr string
  | VArr "jsvalue list"
  | VObj "(string \<times> jsvalue) list"

record Block_js =
  index_js :: number
  timestamp_js :: number
  data_js :: jsvalue
  prevHash_js :: string
  nonce_js :: number
  difficulty_js :: number
  hash_js :: string

text \<open>\<^verbatim>\<open>calculateHash\<close> over these fields.\<close>

definition payload_js :: "number \<Rightarrow> number \<Rightarrow> jsvalue \<Rightarrow> string \<Rightarrow> number \<Rightarrow> number \<Rightarrow> jsvalue" where
  "payload_js idx ts dat ph n d =
     VObj [(''index'', VNum idx), (''timestamp'', VNum ts), (''data'', dat),
           (''prevHash'', VStr ph), (''nonce'', VNum n), (''difficulty'', VNum d)]"

definition calculateHash_js ::
  "(string \<Rightarrow> string) \<Rightarrow> (jsvalue \<Rightarrow> string) \<Rightarrow> number \<Rightarrow> number \<Rightarrow> jsvalue \<Rightarrow> string \<Rightarrow> number \<Rightarrow> number
     \<Rightarrow> string" where
  "calculateHash_js sha256 stringify idx ts dat ph n d =
     sha256 (stringify (payload_js idx ts dat ph n d))"

abbreviation hashed_js :: "Block_js \<Rightarrow> jsvalue" where
  "hashed_js b \<equiv> payload_js (index_js b) (timestamp_js b) (data_js b) (prevHash_js b) (nonce_js b)
     (difficulty_js b)"

text \<open>
  \<^verbatim>\<open>isValidNewBlock(newBlock, prevBlock)\<close>: the four early returns in their order. The
  last one evaluates \<^verbatim>\<open>"0".repeat(newBlock.difficulty)\<close>, which can raise; the call then
  throws instead of returning.
\<close>

definition isValidNewBlock_js ::
  "nat \<Rightarrow> (string \<Rightarrow> string) \<Rightarrow> (jsvalue \<Rightarrow> string) \<Rightarrow> Block_js \<Rightarrow> Block_js \<Rightarrow> error + bool" where
  "isValidNewBlock_js maxLength sha256 stringify newBlock prevBlock =
     (if js_add1 (index_js prevBlock) \<noteq> index_js newBlock then Inr False
      else if hash_js prevBlock \<noteq> prevHash_js newBlock then Inr False
      else let checkHash = calculateHash_js sha256 stringify (index_js newBlock)
                 (timestamp_js newBlock) (data_js newBlock) (prevHash_js newBlock)
                 (nonce_js newBlock) (difficulty_js newBlock) in
        if checkHash \<noteq> hash_js newBlock then Inr False
        else (case repeat_js maxLength ''0'' (difficulty_js newBlock) of
                Inl e \<Rightarrow> Inl e
              | Inr target \<Rightarrow>
                  if \<not> startsWith (hash_js newBlock) target then Inr False else Inr True))"

text \<open>\<^verbatim>\<open>isChainValid(chain)\<close>; an exception of a pair ends the loop.\<close>

function isChainValid_js_loop ::
  "nat \<Rightarrow> (string \<Rightarrow> string) \<Rightarrow> (jsvalue \<Rightarrow> string) \<Rightarrow> Block_js list \<Rightarrow> nat \<Rightarrow> error + bool" where
  "isChainValid_js_loop maxLength sha256 stringify c i =
     (if i < length c then
        (case isValidNewBlock_js maxLength sha256 stringify (c ! i) (c ! (i - 1)) of
           Inl e \<Rightarrow> Inl e
         | Inr ok \<Rightarrow>
             if \<not> ok then Inr False
             else isChainValid_js_loop maxLength sha256 stringify c (i + 1))
      else Inr True)"
  by pat_completeness auto
termination
  by (relation "measure (\<lambda>(maxLength, sha256, stringify, c, i). length c - i)") auto

declare isChainValid_js_loop.simps [simp del]

definition isChainValid_js ::
  "nat \<Rightarrow> (string \<Rightarrow> string) \<Rightarrow> (jsvalue \<Rightarrow> string) \<Rightarrow> Block_js list \<Rightarrow> error + bool" where
  "isChainValid_js maxLength sha256 stringify c =
     (if length c = 0 then Inr False else isChainValid_js_loop maxLength sha256 stringify c 1)"

text \<open>
  \<^verbatim>\<open>proofOfWork\<close> with a number for the difficulty: the target is built before the loop,
  so a RangeError of \<^verbatim>\<open>repeat\<close> is the outcome of the call; the nonce is a double stepped
  by \<^verbatim>\<open>nonce++\<close>. \<open>None\<close> is the run that never returns.
\<close>

partial_function (option) proofOfWork_js_loop ::
  "(string \<Rightarrow> string) \<Rightarrow> (jsvalue \<Rightarrow> string) \<Rightarrow> number \<Rightarrow> number \<Rightarrow> jsvalue \<Rightarrow> string \<Rightarrow> number
     \<Rightarrow> string \<Rightarrow> number \<Rightarrow> (number \<times> string) option" where
  "proofOfWork_js_loop sha256 stringify idx ts dat ph d target n =
     (let h = calculateHash_js sha256 stringify idx ts dat ph n d in
      if startsWith h target then Some (n, h)
      else proofOfWork_js_loop sha256 stringify idx ts dat ph d target (js_add1 n))"

declare proofOfWork_js_loop.simps [code]

definition proofOfWork_js ::
  "nat \<Rightarrow> (string \<Rightarrow> string) \<Rightarrow> (jsvalue \<Rightarrow> string) \<Rightarrow> number \<Rightarrow> number \<Rightarrow> jsvalue \<Rightarrow> string \<Rightarrow> number
     \<Rightarrow> (error + number \<times> string) option" where
  "proofOfWork_js maxLength sha256 stringify idx ts dat ph d =
     (let n = Finite 0 in
      case repeat_js maxLength ''0'' d of
        Inl e \<Rightarrow> Some (Inl e)
      | Inr target \<Rightarrow>
          (case proofOfWork_js_loop sha256 stringify idx ts dat ph d target n of
             None \<Rightarrow> None
           | Some r \<Rightarrow> Some (Inr r)))"




text \<open>
  \<^verbatim>\<open>JSON.stringify\<close> on these values, with the text of a finite number and the quoting
  of a string as parameters. What matters below is its clause for a number that is not
  finite, which it writes as \<^verbatim>\<open>null\<close>.
\<close>

fun join :: "string \<Rightarrow> string list \<Rightarrow> string" where
  "join sep [] = []"
| "join sep [x] = x"
| "join sep (x # y # xs) = x @ sep @ join sep (y # xs)"

fun JSON_stringify :: "(rat \<Rightarrow> string) \<Rightarrow> (string \<Rightarrow> string) \<Rightarrow> jsvalue \<Rightarrow> string" where
  "JSON_stringify numberToString quote VNull = ''null''"
| "JSON_stringify numberToString quote (VBool b) = (if b then ''true'' else ''false'')"
| "JSON_stringify numberToString quote (VNum n) =
     (case n of Finite q \<Rightarrow> numberToString q | PosInf \<Rightarrow> ''null'' | NegInf \<Rightarrow> ''null'')"
| "JSON_stringify numberToString quote (VStr s) = quote s"
| "JSON_stringify numberToString quote (VArr xs) =
     ''['' @ join '','' (map (JSON_stringify numberToString quote) xs) @ '']''"
| "JSON_stringify numberToString quote (VObj kvs) =
     ''{'' @ join '','' (map (\<lambda>kv. quote (fst kv) @ '':'' @ JSON_stringify numberToString quote (snd kv)) kvs)
       @ ''}''"

subsection \<open>The four conditions as the specification words them\<close>

text \<open>
  \<open>c.index == p.index + 1\<close> and \<open>c.hash\<close> has at least \<open>c.difficulty\<close> leading zero
  characters, read as statements about the numbers themselves: a successor without
  rounding, and a comparison of the difficulty with the count of zeros.
\<close>

definition exact_successor :: "number \<Rightarrow> number \<Rightarrow> bool" where
  "exact_successor x y =
     (case (x, y) of
        (Finite a, Finite b) \<Rightarrow> b = a + 1
      | (PosInf, PosInf) \<Rightarrow> True
      | (NegInf, NegInf) \<Rightarrow> True
      | _ \<Rightarrow> False)"

definition at_least_leading_zeros :: "string \<Rightarrow> number \<Rightarrow> bool" where
  "at_least_leading_zeros h d =
     (case d of Finite q \<Rightarrow> q \<le> of_nat (leadingZeros h) | PosInf \<Rightarrow> False | NegInf \<Rightarrow> True)"

definition claimed_valid ::
  "(string \<Rightarrow> string) \<Rightarrow> (jsvalue \<Rightarrow> string) \<Rightarrow> Block_js \<Rightarrow> Block_js \<Rightarrow> bool" where
  "claimed_valid sha256 stringify c p =
     (exact_successor (index_js p) (index_js c)
      \<and> prevHash_js c = hash_js p
      \<and> calculateHash_js sha256 stringify (index_js c) (timestamp_js c) (data_js c) (prevHash_js c)
           (nonce_js c) (difficulty_js c) = hash_js c
      \<and> at_least_leading_zeros (hash_js c) (difficulty_js c))"

text \<open>Writing one field of a block, and whether the write changes the field.\<close>

datatype mutation_js =
    SetIndex_js number
  | SetPrevHash_js string
  | SetNonce_js number
  | SetDifficulty_js number
  | SetData_js jsvalue
  | SetHash_js string

fun mutate_js :: "mutation_js \<Rightarrow> Block_js \<Rightarrow> Block_js" where
  "mutate_js (SetIndex_js v) b = b\<lparr>index_js := v\<rparr>"
| "mutate_js (SetPrevHash_js v) b = b\<lparr>prevHash_js := v\<rparr>"
| "mutate_js (SetNonce_js v) b = b\<lparr>nonce_js := v\<rparr>"
| "mutate_js (SetDifficulty_js v) b = b\<lparr>difficulty_js := v\<rparr>"
| "mutate_js (SetData_js v) b = b\<lparr>data_js := v\<rparr>"
| "mutate_js (SetHash_js v) b = b\<lparr>hash_js := v\<rparr>"

fun changes_js :: "mutation_js \<Rightarrow> Block_js \<Rightarrow> bool" where
  "changes_js (SetIndex_js v) b = (v \<noteq> index_js b)"
| "changes_js (SetPrevHash_js v) b = (v \<noteq> prevHash_js b)"
| "changes_js (SetNonce_js v) b = (v \<noteq> nonce_js b)"
| "changes_js (SetDifficulty_js v) b = (v \<noteq> difficulty_js b)"
| "changes_js (SetData_js v) b = (v \<noteq> data_js b)"
| "changes_js (SetHash_js v) b = (v \<noteq> hash_js b)"

subsection \<open>Example blocks from the wire\<close>

text \<open>
  A first block of a given index, and a block on top of \<open>prev\<close> that carries the hash of
  its own fields, with nonce 0 and any index, payload and difficulty. They are built with
  the \<open>sha256\<close> and \<open>stringify\<close> given, so what is proved of them holds for the real
  digest. A ledger that holds a given chain.
\<close>

definition first_js :: "number \<Rightarrow> Block_js" where
  "first_js idx =
     \<lparr>index_js = idx, timestamp_js = Finite 0, data_js = VNull, prevHash_js = repeat ''0'' 64,
      nonce_js = Finite 0, difficulty_js = Finite 1, hash_js = ''00''\<rparr>"

definition honest_js ::
  "(string \<Rightarrow> string) \<Rightarrow> (jsvalue \<Rightarrow> string) \<Rightarrow> number \<Rightarrow> jsvalue \<Rightarrow> number \<Rightarrow> Block_js \<Rightarrow> Block_js" where
  "honest_js sha256 stringify idx dat d prev =
     \<lparr>index_js = idx, timestamp_js = Finite 1, data_js = dat, prevHash_js = hash_js prev,
      nonce_js = Finite 0, difficulty_js = d,
      hash_js = calculateHash_js sha256 stringify idx (Finite 1) dat (hash_js prev) (Finite 0) d\<rparr>"


text \<open>
  A serializer and a digest that can be computed by hand, for the examples that need a
  hash with a given number of leading zeros: the digest has none at nonce 0, one at nonces
  1 and 2, two from nonce 3 on. With them, a block of difficulty 1.5 whose hash has one
  leading zero.
\<close>

definition toy_stringify_js :: "jsvalue \<Rightarrow> string" where
  "toy_stringify_js v =
     (case v of
        VObj kvs \<Rightarrow>
          (case map_of kvs ''nonce'' of
             Some (VNum (Finite q)) \<Rightarrow> (if 3 \<le> q then ''00'' else if 1 \<le> q then ''0a'' else ''1'')
           | _ \<Rightarrow> [])
      | _ \<Rightarrow> [])"

definition toy_sha256_js :: "string \<Rightarrow> string" where
  "toy_sha256_js s = s"

definition toy_fraction_js :: Block_js where
  "toy_fraction_js =
     \<lparr>index_js = Finite 1, timestamp_js = Finite 1, data_js = VNull, prevHash_js = ''00'',
      nonce_js = Finite 1, difficulty_js = Finite (3 / 2), hash_js = ''0a''\<rparr>"

subsection \<open>The blocks of the node's own mining, as blocks from the wire\<close>

text \<open>
  A block with natural numbers in its numeric fields and integers in its payload is a
  block of the kind above.
\<close>

primrec js_of_json :: "json \<Rightarrow> jsvalue" where
  "js_of_json JNull = VNull"
| "js_of_json (JBool b) = VBool b"
| "js_of_json (JNum k) = VNum (Finite (of_int k))"
| "js_of_json (JStr s) = VStr s"
| "js_of_json (JArr xs) = VArr (map js_of_json xs)"
| "js_of_json (JObj kvs) = VObj (map (map_prod id js_of_json) kvs)"

definition js_of_Block :: "Block \<Rightarrow> Block_js" where
  "js_of_Block b =
     \<lparr>index_js = Finite (of_nat (index b)), timestamp_js = Finite (of_nat (timestamp b)),
      data_js = js_of_json (data b), prevHash_js = prevHash b,
      nonce_js = Finite (of_nat (nonce b)), difficulty_js = Finite (of_nat (difficulty b)),
      hash_js = hash b\<rparr>"

section \<open>Properties\<close>

subsection \<open>Strings\<close>

lemma repeat_zero: "repeat ''0'' n = replicate n (CHR ''0'')"
  by (induction n) (simp_all add: repeat_def)

lemma take_replicate_takeWhile:
  "(take n s = replicate n x) = (n \<le> length (takeWhile (\<lambda>c. c = x) s))"
proof (induction s arbitrary: n)
  case Nil
  then show ?case by auto
next
  case (Cons a s)
  then show ?case by (cases n) auto
qed

lemma startsWith_target: "startsWith h (repeat ''0'' d) = (d \<le> leadingZeros h)"
  by (simp add: startsWith_def repeat_zero leadingZeros_def take_replicate_takeWhile)

lemma toy_calculateHash:
  "calculateHash toy_sha256 toy_stringify i t x p n d =
     (if n \<ge> 2 then ''0'' else ''1'') @ replicate n (CHR ''a'')"
  by (simp add: calculateHash_def payload_def toy_sha256_def toy_stringify_def)

lemma toy_hashes:
  "calculateHash toy_sha256 toy_stringify i t x p 0 d = ''1''"
  "calculateHash toy_sha256 toy_stringify i t x p (Suc 0) d = ''1a''"
  "calculateHash toy_sha256 toy_stringify i t x p 2 d = ''0aa''"
  by (simp_all add: toy_calculateHash eval_nat_numeral)

subsection \<open>Validation of a block against its parent\<close>

lemma isValidNewBlock_checks:
  "isValidNewBlock sha256 stringify c p =
     (index c = index p + 1
      \<and> prevHash c = hash p
      \<and> calculateHash sha256 stringify (index c) (timestamp c) (data c) (prevHash c) (nonce c)
           (difficulty c) = hash c
      \<and> startsWith (hash c) (repeat ''0'' (difficulty c)))"
  by (auto simp: isValidNewBlock_def Let_def)

lemma isValidNewBlock_parent:
  "index p = index p' \<Longrightarrow> hash p = hash p' \<Longrightarrow>
     isValidNewBlock sha256 stringify c p = isValidNewBlock sha256 stringify c p'"
  by (simp add: isValidNewBlock_def)

lemma toy_block1_valid: "isValidNewBlock toy_sha256 toy_stringify toy_block1 toy_genesis"
  by (simp add: isValidNewBlock_checks toy_hashes toy_block1_def toy_genesis_def startsWith_def repeat_zero)

lemma toy_block2_valid: "isValidNewBlock toy_sha256 toy_stringify toy_block2 toy_block1"
  by (simp add: isValidNewBlock_checks toy_hashes toy_block1_def toy_block2_def startsWith_def repeat_zero)
subsection \<open>Validation of a chain\<close>

lemma isChainValid_loop_iff:
  "isChainValid_loop sha256 stringify c i =
     (\<forall>j. i \<le> j \<and> j < length c \<longrightarrow> isValidNewBlock sha256 stringify (c ! j) (c ! (j - 1)))"
proof (induction sha256 stringify c i rule: isChainValid_loop.induct)
  case (1 sha256 stringify c i)
  show ?case
  proof (cases "i < length c")
    case False
    then show ?thesis by (subst isChainValid_loop.simps) auto
  next
    case True
    show ?thesis
    proof (cases "isValidNewBlock sha256 stringify (c ! i) (c ! (i - 1))")
      case False
      with True show ?thesis by (subst isChainValid_loop.simps) auto
    next
      case ok: True
      have "isChainValid_loop sha256 stringify c i = isChainValid_loop sha256 stringify c (i + 1)"
        using True ok by (subst isChainValid_loop.simps) simp
      also have "\<dots> = (\<forall>j. i + 1 \<le> j \<and> j < length c \<longrightarrow>
                          isValidNewBlock sha256 stringify (c ! j) (c ! (j - 1)))"
        using "1.IH" True ok by simp
      also have "\<dots> = (\<forall>j. i \<le> j \<and> j < length c \<longrightarrow>
                          isValidNewBlock sha256 stringify (c ! j) (c ! (j - 1)))"
      proof -
        have "\<And>j. i \<le> j \<longleftrightarrow> j = i \<or> i + 1 \<le> j" by auto
        then show ?thesis using ok by metis
      qed
      finally show ?thesis .
    qed
  qed
qed

lemma isChainValid_iff:
  "isChainValid sha256 stringify s =
     (s \<noteq> [] \<and> (\<forall>i. 1 \<le> i \<and> i < length s \<longrightarrow>
        isValidNewBlock sha256 stringify (s ! i) (s ! (i - 1))))"
  by (simp add: isChainValid_def isChainValid_loop_iff)

lemma isChainValid_first_block:
  assumes "index b' = index b" and "hash b' = hash b"
  shows "isChainValid sha256 stringify (b' # rest) = isChainValid sha256 stringify (b # rest)"
proof -
  have pair: "isValidNewBlock sha256 stringify ((b' # rest) ! i) ((b' # rest) ! (i - 1)) =
        isValidNewBlock sha256 stringify ((b # rest) ! i) ((b # rest) ! (i - 1))"
    if "1 \<le> i" for i
  proof (cases i)
    case 0
    with that show ?thesis by simp
  next
    case (Suc k)
    show ?thesis
    proof (cases k)
      case 0
      with Suc show ?thesis
        using isValidNewBlock_parent [OF assms, of sha256 stringify "rest ! 0"] by simp
    next
      case (Suc m)
      with \<open>i = Suc k\<close> show ?thesis by simp
    qed
  qed
  have "(\<forall>i. 1 \<le> i \<and> i < length (b' # rest) \<longrightarrow>
           isValidNewBlock sha256 stringify ((b' # rest) ! i) ((b' # rest) ! (i - 1))) =
        (\<forall>i. 1 \<le> i \<and> i < length (b # rest) \<longrightarrow>
           isValidNewBlock sha256 stringify ((b # rest) ! i) ((b # rest) ! (i - 1)))"
    using pair by (metis length_Cons)
  then show ?thesis
    unfolding isChainValid_iff by blast
qed


text \<open>
  C5. For every sequence of blocks \<open>s\<close>, \<open>isChainValid s\<close> is false when \<open>s\<close> is empty,
  and otherwise it is true if and only if \<open>isValidNewBlock (s ! i) (s ! (i - 1))\<close> holds
  for every adjacent pair from index 1 on. The block at index 0 is never itself checked:
  every sequence of length 1 is valid whatever its block holds, and the verdict on a
  longer sequence does not depend on the timestamp, payload, \<open>prevHash\<close>, nonce or
  difficulty of its first block.
\<close>

theorem isChainValid_spec:
  "isChainValid sha256 stringify [] = False
   \<and> (s \<noteq> [] \<longrightarrow>
        isChainValid sha256 stringify s =
          (\<forall>i. 1 \<le> i \<and> i < length s \<longrightarrow> isValidNewBlock sha256 stringify (s ! i) (s ! (i - 1))))
   \<and> isChainValid sha256 stringify [b] = True
   \<and> isChainValid sha256 stringify
        (b\<lparr>timestamp := t, data := x, prevHash := p, nonce := n, difficulty := d\<rparr> # rest)
      = isChainValid sha256 stringify (b # rest)"
proof -
  have "isChainValid sha256 stringify [] = False"
    by (simp add: isChainValid_def)
  moreover have "isChainValid sha256 stringify [b] = True"
    by (simp add: isChainValid_iff)
  moreover have "isChainValid sha256 stringify
        (b\<lparr>timestamp := t, data := x, prevHash := p, nonce := n, difficulty := d\<rparr> # rest)
      = isChainValid sha256 stringify (b # rest)"
    by (rule isChainValid_first_block) simp_all
  ultimately show ?thesis
    by (simp add: isChainValid_iff)
qed


theorem isChainValid_spec_witness:
  "[toy_genesis, toy_block1] \<noteq> []
   \<and> (1::nat) < length [toy_genesis, toy_block1]
   \<and> isValidNewBlock toy_sha256 toy_stringify ([toy_genesis, toy_block1] ! 1) ([toy_genesis, toy_block1] ! 0)
   \<and> isChainValid toy_sha256 toy_stringify [toy_genesis, toy_block1]"
proof -
  have pair: "isValidNewBlock toy_sha256 toy_stringify ([toy_genesis, toy_block1] ! 1)
                ([toy_genesis, toy_block1] ! 0)"
    using toy_block1_valid by simp
  have "isValidNewBlock toy_sha256 toy_stringify ([toy_genesis, toy_block1] ! i)
          ([toy_genesis, toy_block1] ! (i - 1))"
    if "1 \<le> i \<and> i < length [toy_genesis, toy_block1]" for i
  proof -
    from that have "i = 1" by simp
    with pair show ?thesis by simp
  qed
  with isChainValid_spec [of toy_sha256 toy_stringify "[toy_genesis, toy_block1]"]
  have "isChainValid toy_sha256 toy_stringify [toy_genesis, toy_block1]"
    by blast
  with pair show ?thesis by simp
qed

subsection \<open>Proof of work\<close>

lemma proofOfWork_loop_finds:
  assumes "startsWith (calculateHash sha256 stringify idx ts dat ph m d) target"
    and "n \<le> m"
    and "\<forall>k. n \<le> k \<and> k < m \<longrightarrow> \<not> startsWith (calculateHash sha256 stringify idx ts dat ph k d) target"
  shows "proofOfWork_loop sha256 stringify idx ts dat ph d target n =
           Some (m, calculateHash sha256 stringify idx ts dat ph m d)"
  using assms
proof (induction "m - n" arbitrary: n)
  case 0
  then have "n = m" by simp
  with "0.prems"(1) show ?case
    by (subst proofOfWork_loop.simps) (simp add: Let_def)
next
  case (Suc x)
  then have lt: "n < m" by simp
  with Suc.prems(3) have miss: "\<not> startsWith (calculateHash sha256 stringify idx ts dat ph n d) target"
    by simp
  have "proofOfWork_loop sha256 stringify idx ts dat ph d target (n + 1) =
          Some (m, calculateHash sha256 stringify idx ts dat ph m d)"
  proof (rule Suc.hyps(1))
    show "x = m - (n + 1)" using Suc.hyps(2) by simp
    show "startsWith (calculateHash sha256 stringify idx ts dat ph m d) target" by (rule Suc.prems(1))
    show "n + 1 \<le> m" using lt by simp
    show "\<forall>k. n + 1 \<le> k \<and> k < m \<longrightarrow>
            \<not> startsWith (calculateHash sha256 stringify idx ts dat ph k d) target"
      using Suc.prems(3) by simp
  qed
  with miss show ?case
    by (subst proofOfWork_loop.simps) (simp add: Let_def)
qed

lemma proofOfWork_least:
  assumes "d \<le> leadingZeros (calculateHash sha256 stringify idx ts dat ph m d)"
    and "\<forall>k<m. \<not> d \<le> leadingZeros (calculateHash sha256 stringify idx ts dat ph k d)"
  shows "proofOfWork sha256 stringify idx ts dat ph d =
           Some (m, calculateHash sha256 stringify idx ts dat ph m d)"
  unfolding proofOfWork_def Let_def
  by (rule proofOfWork_loop_finds) (use assms in \<open>simp_all add: startsWith_target\<close>)

lemma toy_proofOfWork:
  "proofOfWork toy_sha256 toy_stringify i t x p 0 = Some (0, ''1'')"
  "proofOfWork toy_sha256 toy_stringify i t x p (Suc 0) = Some (2, ''0aa'')"
proof -
  show "proofOfWork toy_sha256 toy_stringify i t x p 0 = Some (0, ''1'')"
    using proofOfWork_least [of 0 toy_sha256 toy_stringify i t x p 0]
    by (simp add: toy_hashes)
  have "\<forall>k<2. \<not> Suc 0 \<le> leadingZeros (calculateHash toy_sha256 toy_stringify i t x p k (Suc 0))"
    by (simp add: toy_calculateHash leadingZeros_def)
  then show "proofOfWork toy_sha256 toy_stringify i t x p (Suc 0) = Some (2, ''0aa'')"
    using proofOfWork_least [of "Suc 0" toy_sha256 toy_stringify i t x p 2]
    by (simp add: toy_hashes leadingZeros_def)
qed

subsection \<open>Replacing the chain, receiving a block\<close>

lemma isChainValid_single: "isChainValid sha256 stringify [b]"
  by (simp add: isChainValid_def isChainValid_loop_iff)

lemma adjacent_snoc:
  "(\<forall>i. 1 \<le> i \<and> i < length (cs @ [p, b]) \<longrightarrow> P ((cs @ [p, b]) ! i) ((cs @ [p, b]) ! (i - 1))) =
     ((\<forall>i. 1 \<le> i \<and> i < length (cs @ [p]) \<longrightarrow> P ((cs @ [p]) ! i) ((cs @ [p]) ! (i - 1))) \<and> P b p)"
proof -
  let ?c = "cs @ [p, b]" and ?c' = "cs @ [p]"
  have same: "?c ! j = ?c' ! j" if "j \<le> length cs" for j
    using that by (cases "j < length cs") (simp_all add: nth_append)
  have top: "?c ! (length cs + 1) = b" "?c ! length cs = p"
    by (simp_all add: nth_append)
  show ?thesis
  proof (intro iffI conjI allI impI)
    fix i
    assume all: "\<forall>i. 1 \<le> i \<and> i < length ?c \<longrightarrow> P (?c ! i) (?c ! (i - 1))"
      and i: "1 \<le> i \<and> i < length ?c'"
    from spec [OF all, of i] i have "P (?c ! i) (?c ! (i - 1))" by simp
    moreover have "i \<le> length cs" "i - 1 \<le> length cs" using i by auto
    ultimately show "P (?c' ! i) (?c' ! (i - 1))" by (simp add: same)
  next
    assume all: "\<forall>i. 1 \<le> i \<and> i < length ?c \<longrightarrow> P (?c ! i) (?c ! (i - 1))"
    from spec [OF all, of "length cs + 1"]
    have "P (?c ! (length cs + 1)) (?c ! (length cs + 1 - 1))" by simp
    then show "P b p" using top by simp
  next
    fix i
    assume both: "(\<forall>i. 1 \<le> i \<and> i < length ?c' \<longrightarrow> P (?c' ! i) (?c' ! (i - 1))) \<and> P b p"
      and i: "1 \<le> i \<and> i < length ?c"
    show "P (?c ! i) (?c ! (i - 1))"
    proof (cases "i = length cs + 1")
      case True
      with both top show ?thesis by simp
    next
      case False
      with i have le: "i \<le> length cs" "i - 1 \<le> length cs" by auto
      from both have "\<forall>i. 1 \<le> i \<and> i < length ?c' \<longrightarrow> P (?c' ! i) (?c' ! (i - 1))" by blast
      from spec [OF this, of i] i le have "P (?c' ! i) (?c' ! (i - 1))" by simp
      with le show ?thesis by (simp add: same)
    qed
  qed
qed

lemma isChainValid_snoc:
  "isChainValid sha256 stringify (cs @ [p, b]) =
     (isChainValid sha256 stringify (cs @ [p]) \<and> isValidNewBlock sha256 stringify b p)"
  unfolding isChainValid_iff using adjacent_snoc [of cs p b "isValidNewBlock sha256 stringify"]
  by simp

lemma isChainValid_pair:
  "isChainValid sha256 stringify [a, b] = isValidNewBlock sha256 stringify b a"
  using isChainValid_snoc [of sha256 stringify "[]" a b] by (simp add: isChainValid_single)

lemma toy_chain2_valid: "isChainValid toy_sha256 toy_stringify [toy_genesis, toy_block1]"
  by (simp add: isChainValid_pair toy_block1_valid)

text \<open>
  C1. For every ledger and every candidate sequence, \<open>replaceChain\<close> answers true and
  installs (and saves) the candidate as the new chain if and only if the candidate is
  strictly longer than the current chain and \<open>isChainValid\<close> holds of it; in every other
  case it answers false and leaves the ledger exactly as it was.
\<close>

theorem replaceChain_spec:
  "(replaceChain sha256 stringify bc candidate =
      (True, bc\<lparr>chain_blocks := candidate, dbFile := candidate\<rparr>))
     = (length (chain_blocks bc) < length candidate \<and> isChainValid sha256 stringify candidate)
   \<and> fst (replaceChain sha256 stringify bc candidate)
     = (length (chain_blocks bc) < length candidate \<and> isChainValid sha256 stringify candidate)
   \<and> (\<not> (length (chain_blocks bc) < length candidate \<and> isChainValid sha256 stringify candidate)
        \<longrightarrow> replaceChain sha256 stringify bc candidate = (False, bc))"
  by (auto simp: replaceChain_def save_def)

theorem replaceChain_spec_witness:
  "length (chain_blocks \<lparr>defaultDifficulty = 3, chain_blocks = [toy_genesis], dbFile = [toy_genesis]\<rparr>)
     < length [toy_genesis, toy_block1]
   \<and> isChainValid toy_sha256 toy_stringify [toy_genesis, toy_block1]
   \<and> replaceChain toy_sha256 toy_stringify
        \<lparr>defaultDifficulty = 3, chain_blocks = [toy_genesis], dbFile = [toy_genesis]\<rparr>
        [toy_genesis, toy_block1]
      = (True, \<lparr>defaultDifficulty = 3, chain_blocks = [toy_genesis, toy_block1],
                dbFile = [toy_genesis, toy_block1]\<rparr>)
   \<and> \<not> length (chain_blocks \<lparr>defaultDifficulty = 3, chain_blocks = [toy_genesis], dbFile = [toy_genesis]\<rparr>)
         < length [toy_block1]
   \<and> replaceChain toy_sha256 toy_stringify
        \<lparr>defaultDifficulty = 3, chain_blocks = [toy_genesis], dbFile = [toy_genesis]\<rparr> [toy_block1]
      = (False, \<lparr>defaultDifficulty = 3, chain_blocks = [toy_genesis], dbFile = [toy_genesis]\<rparr>)"
  using replaceChain_spec [of toy_sha256 toy_stringify
          "\<lparr>defaultDifficulty = 3, chain_blocks = [toy_genesis], dbFile = [toy_genesis]\<rparr>"
          "[toy_genesis, toy_block1]"]
        replaceChain_spec [of toy_sha256 toy_stringify
          "\<lparr>defaultDifficulty = 3, chain_blocks = [toy_genesis], dbFile = [toy_genesis]\<rparr>"
          "[toy_block1]"]
        toy_chain2_valid
  by simp

lemma getLatestBlock_snoc: "chain_blocks bc = cs @ [t] \<Longrightarrow> getLatestBlock bc = Some t"
  by (simp add: getLatestBlock_def)

subsection \<open>The validation inside resolve\<close>

lemma resolve_valid_loop_iff:
  "resolve_valid_loop sha256 stringify c i =
     (\<forall>j. i \<le> j \<and> j < length c \<longrightarrow> resolve_pair_ok sha256 stringify (c ! j) (c ! (j - 1)))"
proof (induction sha256 stringify c i rule: resolve_valid_loop.induct)
  case (1 sha256 stringify c i)
  show ?case
  proof (cases "i < length c")
    case False
    then show ?thesis by (subst resolve_valid_loop.simps) auto
  next
    case True
    show ?thesis
    proof (cases "resolve_pair_ok sha256 stringify (c ! i) (c ! (i - 1))")
      case False
      with True show ?thesis
        by (subst resolve_valid_loop.simps) (auto simp: resolve_pair_ok_def Let_def)
    next
      case ok: True
      have "resolve_valid_loop sha256 stringify c i = resolve_valid_loop sha256 stringify c (i + 1)"
        using True ok by (subst resolve_valid_loop.simps) (auto simp: resolve_pair_ok_def Let_def)
      also have "\<dots> = (\<forall>j. i + 1 \<le> j \<and> j < length c \<longrightarrow>
                          resolve_pair_ok sha256 stringify (c ! j) (c ! (j - 1)))"
      proof -
        have "\<not> (sha256 (stringify (hashed (c ! i))) \<noteq> hash (c ! i)
                 \<or> prevHash (c ! i) \<noteq> hash (c ! (i - 1))
                 \<or> \<not> startsWith (hash (c ! i)) (repeat ''0'' (difficulty (c ! i))))"
          using ok unfolding resolve_pair_ok_def by blast
        from "1.IH" [OF True refl refl refl this] show ?thesis by simp
      qed
      also have "\<dots> = (\<forall>j. i \<le> j \<and> j < length c \<longrightarrow>
                          resolve_pair_ok sha256 stringify (c ! j) (c ! (j - 1)))"
      proof -
        have "\<And>j. i \<le> j \<longleftrightarrow> j = i \<or> i + 1 \<le> j" by auto
        then show ?thesis using ok by metis
      qed
      finally show ?thesis .
    qed
  qed
qed

lemma isValidNewBlock_resolve_pair_ok:
  "isValidNewBlock sha256 stringify c p \<Longrightarrow> resolve_pair_ok sha256 stringify c p"
  by (auto simp: isValidNewBlock_checks resolve_pair_ok_def calculateHash_def)

lemma isChainValid_resolve_valid:
  "isChainValid sha256 stringify c \<Longrightarrow> resolve_valid_loop sha256 stringify c 1"
  by (simp add: isChainValid_iff resolve_valid_loop_iff isValidNewBlock_resolve_pair_ok)

lemma resolve_valid_snoc:
  "resolve_valid_loop sha256 stringify (cs @ [p, b]) 1 =
     (resolve_valid_loop sha256 stringify (cs @ [p]) 1 \<and> resolve_pair_ok sha256 stringify b p)"
  unfolding resolve_valid_loop_iff by (rule adjacent_snoc)




subsection \<open>Blocks of difficulty 0\<close>

lemma toy_easy2_valid: "isValidNewBlock toy_sha256 toy_stringify toy_easy2 toy_block1"
  by (simp add: isValidNewBlock_checks toy_hashes toy_block1_def toy_easy2_def startsWith_def repeat_zero)

lemma replaceChain_accepts:
  "length (chain_blocks bc) < length c \<Longrightarrow> isChainValid sha256 stringify c \<Longrightarrow>
     replaceChain sha256 stringify bc c = (True, bc\<lparr>chain_blocks := c, dbFile := c\<rparr>)"
  by (simp add: replaceChain_def save_def)

lemma resolve_single:
  assumes "length (chain_blocks bc) < length c" and "isChainValid sha256 stringify c"
  shows "resolve sha256 stringify bc [Some c] = (True, bc\<lparr>chain_blocks := c, dbFile := c\<rparr>)"
  using assms isChainValid_resolve_valid [OF assms(2)]
  by (simp add: resolve_def replaceChain_accepts)

text \<open>
  C9. Validation compares the hash with the target of the candidate block's own
  \<open>difficulty\<close> field and never with the default difficulty of the node. For every
  block \<open>b\<close> whose index, link and recomputed hash pass against \<open>p\<close> and whose
  difficulty is 0, the target is the empty string and \<open>isValidNewBlock b p\<close> holds; so
  a node whose tip is \<open>p\<close> adopts \<open>b\<close> when it is pushed, \<open>b\<close> extends a valid chain
  to a valid chain for \<open>isChainValid\<close> and for the loop inside resolve, and
  \<open>replaceChain\<close> and resolve install the extended chain when it is longer than the
  local one, whatever the default difficulty \<open>dd\<close> of the node.
\<close>

theorem zero_difficulty_accepted:
  assumes "index b = index p + 1"
    and "prevHash b = hash p"
    and "calculateHash sha256 stringify (index b) (timestamp b) (data b) (prevHash b) (nonce b)
           (difficulty b) = hash b"
    and "difficulty b = 0"
  shows "isValidNewBlock sha256 stringify b p
    \<and> (chain_blocks bc = cs @ [p] \<longrightarrow>
         receive_block sha256 stringify (bc\<lparr>defaultDifficulty := dd\<rparr>) b =
           (Adopted (index b),
            bc\<lparr>defaultDifficulty := dd, chain_blocks := cs @ [p, b], dbFile := cs @ [p, b]\<rparr>))
    \<and> (isChainValid sha256 stringify (cs @ [p]) \<longrightarrow> isChainValid sha256 stringify (cs @ [p, b]))
    \<and> (resolve_valid_loop sha256 stringify (cs @ [p]) 1 \<longrightarrow>
         resolve_valid_loop sha256 stringify (cs @ [p, b]) 1)
    \<and> (isChainValid sha256 stringify (cs @ [p]) \<and> length (chain_blocks bc) < length (cs @ [p, b]) \<longrightarrow>
         replaceChain sha256 stringify (bc\<lparr>defaultDifficulty := dd\<rparr>) (cs @ [p, b]) =
           (True, bc\<lparr>defaultDifficulty := dd, chain_blocks := cs @ [p, b], dbFile := cs @ [p, b]\<rparr>)
         \<and> resolve sha256 stringify (bc\<lparr>defaultDifficulty := dd\<rparr>) [Some (cs @ [p, b])] =
           (True, bc\<lparr>defaultDifficulty := dd, chain_blocks := cs @ [p, b], dbFile := cs @ [p, b]\<rparr>))"
proof -
  have target: "startsWith (hash b) (repeat ''0'' (difficulty b))"
    using assms(4) by (simp add: startsWith_def repeat_zero)
  have v: "isValidNewBlock sha256 stringify b p"
    using assms(1-3) target by (simp add: isValidNewBlock_checks)
  have r: "resolve_pair_ok sha256 stringify b p"
    using v by (rule isValidNewBlock_resolve_pair_ok)
  have recv: "receive_block sha256 stringify (bc\<lparr>defaultDifficulty := dd\<rparr>) b =
           (Adopted (index b),
            bc\<lparr>defaultDifficulty := dd, chain_blocks := cs @ [p, b], dbFile := cs @ [p, b]\<rparr>)"
    if "chain_blocks bc = cs @ [p]"
    using that v by (simp add: receive_block_def getLatestBlock_def save_def)
  have repl: "replaceChain sha256 stringify (bc\<lparr>defaultDifficulty := dd\<rparr>) (cs @ [p, b]) =
           (True, bc\<lparr>defaultDifficulty := dd, chain_blocks := cs @ [p, b], dbFile := cs @ [p, b]\<rparr>)
         \<and> resolve sha256 stringify (bc\<lparr>defaultDifficulty := dd\<rparr>) [Some (cs @ [p, b])] =
           (True, bc\<lparr>defaultDifficulty := dd, chain_blocks := cs @ [p, b], dbFile := cs @ [p, b]\<rparr>)"
    if "isChainValid sha256 stringify (cs @ [p])" "length (chain_blocks bc) < length (cs @ [p, b])"
  proof -
    have ok: "isChainValid sha256 stringify (cs @ [p, b])"
      using that(1) v by (simp add: isChainValid_snoc)
    have len: "length (chain_blocks (bc\<lparr>defaultDifficulty := dd\<rparr>)) < length (cs @ [p, b])"
      using that(2) by simp
    show ?thesis
      using replaceChain_accepts [OF len ok] resolve_single [OF len ok] by simp
  qed
  have cv: "isChainValid sha256 stringify (cs @ [p]) \<longrightarrow> isChainValid sha256 stringify (cs @ [p, b])"
    using v isChainValid_snoc [of sha256 stringify cs p b] by blast
  have rv: "resolve_valid_loop sha256 stringify (cs @ [p]) 1 \<longrightarrow>
         resolve_valid_loop sha256 stringify (cs @ [p, b]) 1"
    using r resolve_valid_snoc [of sha256 stringify cs p b] by blast
  show ?thesis
    using v recv repl cv rv by blast
qed

theorem zero_difficulty_accepted_witness:
  "index toy_easy2 = index toy_block1 + 1
   \<and> prevHash toy_easy2 = hash toy_block1
   \<and> calculateHash toy_sha256 toy_stringify (index toy_easy2) (timestamp toy_easy2) (data toy_easy2)
        (prevHash toy_easy2) (nonce toy_easy2) (difficulty toy_easy2) = hash toy_easy2
   \<and> difficulty toy_easy2 = 0
   \<and> chain_blocks \<lparr>defaultDifficulty = 0, chain_blocks = [toy_genesis, toy_block1],
                   dbFile = [toy_genesis, toy_block1]\<rparr> = [toy_genesis] @ [toy_block1]
   \<and> isChainValid toy_sha256 toy_stringify ([toy_genesis] @ [toy_block1])
   \<and> isValidNewBlock toy_sha256 toy_stringify toy_easy2 toy_block1
   \<and> receive_block toy_sha256 toy_stringify
        \<lparr>defaultDifficulty = 3, chain_blocks = [toy_genesis, toy_block1],
          dbFile = [toy_genesis, toy_block1]\<rparr> toy_easy2
      = (Adopted 2, \<lparr>defaultDifficulty = 3, chain_blocks = [toy_genesis, toy_block1, toy_easy2],
                      dbFile = [toy_genesis, toy_block1, toy_easy2]\<rparr>)
   \<and> resolve toy_sha256 toy_stringify
        \<lparr>defaultDifficulty = 3, chain_blocks = [toy_genesis, toy_block1],
          dbFile = [toy_genesis, toy_block1]\<rparr> [Some [toy_genesis, toy_block1, toy_easy2]]
      = (True, \<lparr>defaultDifficulty = 3, chain_blocks = [toy_genesis, toy_block1, toy_easy2],
                 dbFile = [toy_genesis, toy_block1, toy_easy2]\<rparr>)"
proof -
  let ?bc = "\<lparr>defaultDifficulty = 0, chain_blocks = [toy_genesis, toy_block1],
               dbFile = [toy_genesis, toy_block1]\<rparr>"
  have a1: "index toy_easy2 = index toy_block1 + 1"
    and a2: "prevHash toy_easy2 = hash toy_block1"
    and a3: "calculateHash toy_sha256 toy_stringify (index toy_easy2) (timestamp toy_easy2)
               (data toy_easy2) (prevHash toy_easy2) (nonce toy_easy2) (difficulty toy_easy2)
             = hash toy_easy2"
    and a4: "difficulty toy_easy2 = 0"
    by (simp_all add: toy_easy2_def toy_block1_def toy_hashes)
  have c: "chain_blocks ?bc = [toy_genesis] @ [toy_block1]" by simp
  have v: "isChainValid toy_sha256 toy_stringify ([toy_genesis] @ [toy_block1])"
    using toy_chain2_valid by simp
  have len: "length (chain_blocks ?bc) < length ([toy_genesis] @ [toy_block1, toy_easy2])" by simp
  have i2: "index toy_easy2 = 2" by (simp add: toy_easy2_def)
  from zero_difficulty_accepted [OF a1 a2 a3 a4, of ?bc "[toy_genesis]" 3] c v len
  have "isValidNewBlock toy_sha256 toy_stringify toy_easy2 toy_block1"
    and "receive_block toy_sha256 toy_stringify (?bc\<lparr>defaultDifficulty := 3\<rparr>) toy_easy2 =
           (Adopted (index toy_easy2),
            ?bc\<lparr>defaultDifficulty := 3, chain_blocks := [toy_genesis] @ [toy_block1, toy_easy2],
                 dbFile := [toy_genesis] @ [toy_block1, toy_easy2]\<rparr>)"
    and "resolve toy_sha256 toy_stringify (?bc\<lparr>defaultDifficulty := 3\<rparr>)
           [Some ([toy_genesis] @ [toy_block1, toy_easy2])] =
           (True, ?bc\<lparr>defaultDifficulty := 3, chain_blocks := [toy_genesis] @ [toy_block1, toy_easy2],
                 dbFile := [toy_genesis] @ [toy_block1, toy_easy2]\<rparr>)"
    by blast+
  then show ?thesis using a1 a2 a3 a4 v i2 by simp
qed




subsection \<open>Appending a block\<close>

lemma proofOfWork_loop_sound:
  assumes "proofOfWork_loop sha256 stringify idx ts dat ph d target n0 = Some y"
  shows "snd y = calculateHash sha256 stringify idx ts dat ph (fst y) d
     \<and> startsWith (snd y) target \<and> n0 \<le> fst y"
proof (rule proofOfWork_loop.raw_induct
    [where P = "\<lambda>sha256 stringify idx ts dat ph d target n0 y.
        snd y = calculateHash sha256 stringify idx ts dat ph (fst y) d
        \<and> startsWith (snd y) target \<and> n0 \<le> fst y"])
  show "proofOfWork_loop sha256 stringify idx ts dat ph d target n0 = Some y"
    by (rule assms)
next
  fix loop :: "(string \<Rightarrow> string) \<Rightarrow> (json \<Rightarrow> string) \<Rightarrow> nat \<Rightarrow> nat \<Rightarrow> json \<Rightarrow> string \<Rightarrow> nat \<Rightarrow> string \<Rightarrow> nat
     \<Rightarrow> (nat \<times> string) option"
  fix sha256 stringify idx ts dat ph d target n0 y
  assume IH: "\<And>sha256 stringify idx ts dat ph d target n0 y.
        loop sha256 stringify idx ts dat ph d target n0 = Some y \<Longrightarrow>
        snd y = calculateHash sha256 stringify idx ts dat ph (fst y) d
        \<and> startsWith (snd y) target \<and> n0 \<le> fst y"
    and eq: "(let h = calculateHash sha256 stringify idx ts dat ph n0 d
      in if startsWith h target then Some (n0, h)
         else loop sha256 stringify idx ts dat ph d target (n0 + 1)) = Some y"
  show "snd y = calculateHash sha256 stringify idx ts dat ph (fst y) d
        \<and> startsWith (snd y) target \<and> n0 \<le> fst y"
  proof (cases "startsWith (calculateHash sha256 stringify idx ts dat ph n0 d) target")
    case True
    with eq have "y = (n0, calculateHash sha256 stringify idx ts dat ph n0 d)"
      by (auto simp: Let_def)
    with True show ?thesis by simp
  next
    case False
    with eq have "loop sha256 stringify idx ts dat ph d target (n0 + 1) = Some y"
      by (simp add: Let_def)
    then have "snd y = calculateHash sha256 stringify idx ts dat ph (fst y) d
     \<and> startsWith (snd y) target \<and> n0 + 1 \<le> fst y" by (rule IH)
    then show ?thesis by auto
  qed
qed

lemma proofOfWork_sound:
  "proofOfWork sha256 stringify idx ts dat ph d = Some (n, h) \<Longrightarrow>
     h = calculateHash sha256 stringify idx ts dat ph n d \<and> startsWith h (repeat ''0'' d)"
  using proofOfWork_loop_sound [of sha256 stringify idx ts dat ph d "repeat ''0'' d" 0 "(n, h)"]
  by (auto simp: proofOfWork_def)

lemma proofOfWork_total:
  assumes "\<exists>n. d \<le> leadingZeros (calculateHash sha256 stringify idx ts dat ph n d)"
  shows "\<exists>n. proofOfWork sha256 stringify idx ts dat ph d =
               Some (n, calculateHash sha256 stringify idx ts dat ph n d)"
proof -
  define m where "m = (LEAST n. d \<le> leadingZeros (calculateHash sha256 stringify idx ts dat ph n d))"
  have hit: "d \<le> leadingZeros (calculateHash sha256 stringify idx ts dat ph m d)"
    unfolding m_def using assms by (rule LeastI_ex)
  have least: "\<forall>k<m. \<not> d \<le> leadingZeros (calculateHash sha256 stringify idx ts dat ph k d)"
    unfolding m_def using not_less_Least by blast
  from proofOfWork_least [OF hit least] show ?thesis by blast
qed

text \<open>Without a nonce that meets the target the search runs forever.\<close>

lemma proofOfWork_never_returns:
  assumes "\<forall>n. \<not> d \<le> leadingZeros (calculateHash sha256 stringify idx ts dat ph n d)"
  shows "proofOfWork sha256 stringify idx ts dat ph d = None"
proof (cases "proofOfWork sha256 stringify idx ts dat ph d")
  case None
  then show ?thesis .
next
  case (Some y)
  then have "proofOfWork sha256 stringify idx ts dat ph d = Some (fst y, snd y)" by simp
  from proofOfWork_sound [OF this] assms show ?thesis
    by (auto simp: startsWith_target)
qed

lemma proofOfWork_returns_iff:
  "(\<exists>y. proofOfWork sha256 stringify idx ts dat ph d = Some y) =
     (\<exists>n. d \<le> leadingZeros (calculateHash sha256 stringify idx ts dat ph n d))"
  using proofOfWork_never_returns [of d sha256 stringify idx ts dat ph]
    proofOfWork_total [of d sha256 stringify idx ts dat ph]
  by (metis option.distinct(1))

text \<open>The defensive check after mining never fires.\<close>

lemma mined_block_valid:
  assumes "proofOfWork sha256 stringify idx ts dat ph d = Some (n, h)"
    and "idx = index prev + 1" and "ph = hash prev"
  shows "isValidNewBlock sha256 stringify
           \<lparr>index = idx, timestamp = ts, data = dat, prevHash = ph, nonce = n,
             difficulty = d, hash = h\<rparr> prev"
  using proofOfWork_sound [OF assms(1)] assms(2,3) by (auto simp: isValidNewBlock_checks)

lemma setBlock_result:
  "setBlock sha256 stringify now bc dat =
     (case getLatestBlock bc of
        None \<Rightarrow> Some (Inl TypeError)
      | Some prev \<Rightarrow>
          (case proofOfWork sha256 stringify (index prev + 1) now dat (hash prev) (defaultDifficulty bc) of
             None \<Rightarrow> None
           | Some (n, h) \<Rightarrow>
               Some (Inr (\<lparr>index = index prev + 1, timestamp = now, data = dat, prevHash = hash prev,
                            nonce = n, difficulty = defaultDifficulty bc, hash = h\<rparr>,
                          bc\<lparr>chain_blocks := chain_blocks bc @
                                [\<lparr>index = index prev + 1, timestamp = now, data = dat,
                                  prevHash = hash prev, nonce = n,
                                  difficulty = defaultDifficulty bc, hash = h\<rparr>],
                              dbFile := chain_blocks bc @
                                [\<lparr>index = index prev + 1, timestamp = now, data = dat,
                                  prevHash = hash prev, nonce = n,
                                  difficulty = defaultDifficulty bc, hash = h\<rparr>]\<rparr>))))"
  by (auto simp: setBlock_def Let_def save_def mined_block_valid split: option.splits)

lemma mineBlock_result:
  "mineBlock sha256 stringify now bc dat asked =
     (case getLatestBlock bc of
        None \<Rightarrow> Some (Inl TypeError)
      | Some prev \<Rightarrow>
          (case proofOfWork sha256 stringify (index prev + 1) now dat (hash prev)
                  (asked_difficulty bc asked) of
             None \<Rightarrow> None
           | Some (n, h) \<Rightarrow>
               Some (Inr (\<lparr>index = index prev + 1, timestamp = now, data = dat, prevHash = hash prev,
                            nonce = n, difficulty = asked_difficulty bc asked, hash = h\<rparr>,
                          bc\<lparr>chain_blocks := chain_blocks bc @
                                [\<lparr>index = index prev + 1, timestamp = now, data = dat,
                                  prevHash = hash prev, nonce = n,
                                  difficulty = asked_difficulty bc asked, hash = h\<rparr>],
                              dbFile := chain_blocks bc @
                                [\<lparr>index = index prev + 1, timestamp = now, data = dat,
                                  prevHash = hash prev, nonce = n,
                                  difficulty = asked_difficulty bc asked, hash = h\<rparr>]\<rparr>))))"
  unfolding mineBlock_def asked_difficulty_def [symmetric] Let_def
  by (auto simp: save_def mined_block_valid split: option.splits)

lemma mineBlock_returns:
  assumes "chain_blocks bc = cs @ [prev]"
    and "\<exists>n. asked_difficulty bc asked \<le> leadingZeros
           (calculateHash sha256 stringify (index prev + 1) now dat (hash prev) n (asked_difficulty bc asked))"
  shows "\<exists>b bc'. mineBlock sha256 stringify now bc dat asked = Some (Inr (b, bc'))"
proof -
  have "getLatestBlock bc = Some prev" using assms(1) by (rule getLatestBlock_snoc)
  moreover from proofOfWork_total [OF assms(2)] obtain n where
    "proofOfWork sha256 stringify (index prev + 1) now dat (hash prev) (asked_difficulty bc asked) =
       Some (n, calculateHash sha256 stringify (index prev + 1) now dat (hash prev) n
                  (asked_difficulty bc asked))" ..
  ultimately show ?thesis by (simp add: mineBlock_result)
qed

text \<open>
  C10. For every call of \<open>mineBlock\<close> that returns a block: if the difficulty asked for
  is a number strictly greater than 0, the block's difficulty is that number; if it is
  anything else (0, a negative number, a value that is not a number, or nothing at all),
  the block's difficulty is the default difficulty of the ledger. The block is the one
  appended to the chain. (By \<open>mineBlock_returns\<close> the call does return a block whenever
  the chain is not empty and some nonce meets the target of that difficulty.)
\<close>

theorem mineBlock_difficulty:
  assumes "mineBlock sha256 stringify now bc dat asked = Some (Inr (b, bc'))"
  shows "(\<forall>k. asked = Some (JNum k) \<and> 0 < k \<longrightarrow> int (difficulty b) = k)
       \<and> ((\<forall>k. asked = Some (JNum k) \<longrightarrow> k \<le> 0) \<longrightarrow> difficulty b = defaultDifficulty bc)
       \<and> chain_blocks bc' = chain_blocks bc @ [b]"
proof -
  from assms have d: "difficulty b = asked_difficulty bc asked"
    and c: "chain_blocks bc' = chain_blocks bc @ [b]"
    by (auto simp: mineBlock_result split: option.splits)
  have "asked_difficulty bc asked = nat k" if "asked = Some (JNum k)" "0 < k" for k
    using that by (simp add: asked_difficulty_def)
  moreover have "asked_difficulty bc asked = defaultDifficulty bc"
    if "\<forall>k. asked = Some (JNum k) \<longrightarrow> k \<le> 0"
    using that by (auto simp: asked_difficulty_def split: option.splits json.splits)
  ultimately show ?thesis using d c by auto
qed




lemma toy_mineBlock:
  "mineBlock toy_sha256 toy_stringify 6
     \<lparr>defaultDifficulty = 0, chain_blocks = [toy_genesis], dbFile = [toy_genesis]\<rparr> JNull
     (Some (JNum 1))
   = Some (Inr (toy_block1,
        \<lparr>defaultDifficulty = 0, chain_blocks = [toy_genesis, toy_block1],
          dbFile = [toy_genesis, toy_block1]\<rparr>))"
  "mineBlock toy_sha256 toy_stringify 6
     \<lparr>defaultDifficulty = 0, chain_blocks = [toy_genesis], dbFile = [toy_genesis]\<rparr> JNull
     (Some (JNum (- 2)))
   = Some (Inr (toy_easy1,
        \<lparr>defaultDifficulty = 0, chain_blocks = [toy_genesis, toy_easy1],
          dbFile = [toy_genesis, toy_easy1]\<rparr>))"
  "mineBlock toy_sha256 toy_stringify 6
     \<lparr>defaultDifficulty = 0, chain_blocks = [toy_genesis], dbFile = [toy_genesis]\<rparr> JNull
     (Some (JStr ''4''))
   = Some (Inr (toy_easy1,
        \<lparr>defaultDifficulty = 0, chain_blocks = [toy_genesis, toy_easy1],
          dbFile = [toy_genesis, toy_easy1]\<rparr>))"
  by (simp_all add: mineBlock_result getLatestBlock_def asked_difficulty_def toy_proofOfWork
        toy_genesis_def toy_block1_def toy_easy1_def)

theorem mineBlock_difficulty_witness:
  "mineBlock toy_sha256 toy_stringify 6
     \<lparr>defaultDifficulty = 0, chain_blocks = [toy_genesis], dbFile = [toy_genesis]\<rparr> JNull
     (Some (JNum 1))
   = Some (Inr (toy_block1,
        \<lparr>defaultDifficulty = 0, chain_blocks = [toy_genesis, toy_block1],
          dbFile = [toy_genesis, toy_block1]\<rparr>))
   \<and> int (difficulty toy_block1) = 1
   \<and> mineBlock toy_sha256 toy_stringify 6
     \<lparr>defaultDifficulty = 0, chain_blocks = [toy_genesis], dbFile = [toy_genesis]\<rparr> JNull
     (Some (JNum (- 2)))
   = Some (Inr (toy_easy1,
        \<lparr>defaultDifficulty = 0, chain_blocks = [toy_genesis, toy_easy1],
          dbFile = [toy_genesis, toy_easy1]\<rparr>))
   \<and> mineBlock toy_sha256 toy_stringify 6
     \<lparr>defaultDifficulty = 0, chain_blocks = [toy_genesis], dbFile = [toy_genesis]\<rparr> JNull
     (Some (JStr ''4''))
   = Some (Inr (toy_easy1,
        \<lparr>defaultDifficulty = 0, chain_blocks = [toy_genesis, toy_easy1],
          dbFile = [toy_genesis, toy_easy1]\<rparr>))
   \<and> difficulty toy_easy1
       = defaultDifficulty \<lparr>defaultDifficulty = 0, chain_blocks = [toy_genesis], dbFile = [toy_genesis]\<rparr>"
proof -
  from mineBlock_difficulty [OF toy_mineBlock(1)]
  have "int (difficulty toy_block1) = 1" by simp
  moreover from mineBlock_difficulty [OF toy_mineBlock(2)]
  have "difficulty toy_easy1
       = defaultDifficulty \<lparr>defaultDifficulty = 0, chain_blocks = [toy_genesis], dbFile = [toy_genesis]\<rparr>"
    by simp
  ultimately show ?thesis using toy_mineBlock by simp
qed

subsection \<open>Runs of appends from genesis\<close>

lemma append_result:
  assumes "append sha256 stringify bc call = Some (Inr (b, bc'))"
  shows "chain_blocks bc \<noteq> []
     \<and> chain_blocks bc' = chain_blocks bc @ [b]
     \<and> index b = index (chain_blocks bc ! (length (chain_blocks bc) - 1)) + 1
     \<and> prevHash b = hash (chain_blocks bc ! (length (chain_blocks bc) - 1))"
proof (cases call)
  case (Pair now c)
  show ?thesis
  proof (cases c)
    case (SetBlock dat)
    with Pair assms show ?thesis
      by (auto simp: setBlock_result getLatestBlock_def split: option.splits if_splits)
  next
    case (MineBlock dat asked)
    with Pair assms show ?thesis
      by (auto simp: mineBlock_result getLatestBlock_def split: option.splits if_splits)
  qed
qed

lemma linked_snoc:
  assumes c: "c \<noteq> []"
    and idx: "\<forall>i<length c. index (c ! i) = i"
    and lnk: "\<forall>i. 1 \<le> i \<and> i < length c \<longrightarrow> prevHash (c ! i) = hash (c ! (i - 1))"
    and b: "index b = index (c ! (length c - 1)) + 1" "prevHash b = hash (c ! (length c - 1))"
  shows "(\<forall>i<length (c @ [b]). index ((c @ [b]) ! i) = i)
     \<and> (\<forall>i. 1 \<le> i \<and> i < length (c @ [b]) \<longrightarrow> prevHash ((c @ [b]) ! i) = hash ((c @ [b]) ! (i - 1)))"
proof (intro conjI allI impI)
  fix i assume "i < length (c @ [b])"
  show "index ((c @ [b]) ! i) = i"
  proof (cases "i < length c")
    case True
    with idx show ?thesis by (simp add: nth_append)
  next
    case False
    with \<open>i < length (c @ [b])\<close> have i: "i = length c" by simp
    from c have "length c - 1 < length c" by simp
    with idx have "index (c ! (length c - 1)) = length c - 1" by blast
    with b(1) c i show ?thesis by simp
  qed
next
  fix i assume i: "1 \<le> i \<and> i < length (c @ [b])"
  show "prevHash ((c @ [b]) ! i) = hash ((c @ [b]) ! (i - 1))"
  proof (cases "i < length c")
    case True
    with i lnk have "prevHash (c ! i) = hash (c ! (i - 1))" by blast
    moreover from True have "i - 1 < length c" by simp
    ultimately show ?thesis using True by (simp add: nth_append)
  next
    case False
    with i have "i = length c" by simp
    moreover from c have "length c - 1 < length c" by simp
    ultimately show ?thesis using b(2) by (simp add: nth_append)
  qed
qed

lemma appends_linked:
  assumes "appends sha256 stringify bc calls = Some bc'"
    and "chain_blocks bc \<noteq> []"
    and "\<forall>i<length (chain_blocks bc). index (chain_blocks bc ! i) = i"
    and "\<forall>i. 1 \<le> i \<and> i < length (chain_blocks bc) \<longrightarrow>
           prevHash (chain_blocks bc ! i) = hash (chain_blocks bc ! (i - 1))"
  shows "length (chain_blocks bc') = length (chain_blocks bc) + length calls
     \<and> (\<forall>i<length (chain_blocks bc'). index (chain_blocks bc' ! i) = i)
     \<and> (\<forall>i. 1 \<le> i \<and> i < length (chain_blocks bc') \<longrightarrow>
           prevHash (chain_blocks bc' ! i) = hash (chain_blocks bc' ! (i - 1)))"
  using assms
proof (induction calls arbitrary: bc)
  case Nil
  then show ?case by simp
next
  case (Cons call calls)
  from Cons.prems(1) obtain b bc1 where
    step: "append sha256 stringify bc call = Some (Inr (b, bc1))"
    and rest: "appends sha256 stringify bc1 calls = Some bc'"
    by (auto split: option.splits sum.splits)
  from append_result [OF step] have
    c1: "chain_blocks bc1 = chain_blocks bc @ [b]"
    and b: "index b = index (chain_blocks bc ! (length (chain_blocks bc) - 1)) + 1"
           "prevHash b = hash (chain_blocks bc ! (length (chain_blocks bc) - 1))"
    by simp_all
  from linked_snoc [OF Cons.prems(2) Cons.prems(3) Cons.prems(4) b]
  have inv1: "\<forall>i<length (chain_blocks bc1). index (chain_blocks bc1 ! i) = i"
    "\<forall>i. 1 \<le> i \<and> i < length (chain_blocks bc1) \<longrightarrow>
           prevHash (chain_blocks bc1 ! i) = hash (chain_blocks bc1 ! (i - 1))"
    unfolding c1 by blast+
  have ne1: "chain_blocks bc1 \<noteq> []" by (simp add: c1)
  from Cons.IH [OF rest ne1 inv1] show ?case by (simp add: c1)
qed

lemma new_Blockchain_genesis:
  assumes "new_Blockchain sha256 stringify now [] dd = Some bc"
  shows "\<exists>g. chain_blocks bc = [g] \<and> index g = 0 \<and> defaultDifficulty bc = dd \<and> dbFile bc = [g]"
  using assms
  by (auto simp: new_Blockchain_def createGenesisBlock_def Let_def save_def
           split: option.splits)

text \<open>
  C7. For every \<open>N\<close>, starting from the ledger the constructor builds when no chain was
  loaded (the genesis block alone) and making \<open>N\<close> append calls (\<open>setBlock\<close> or
  \<open>mineBlock\<close>, in any mix) each of which returns its block, the chain has length
  \<open>N + 1\<close>, its blocks carry the indices \<open>0..N\<close> in order, and the \<open>prevHash\<close> of each
  block from 1 to \<open>N\<close> is the hash of the block before it.
\<close>

theorem appends_from_genesis:
  assumes "new_Blockchain sha256 stringify now [] dd = Some bc0"
    and "appends sha256 stringify bc0 calls = Some bc"
  shows "length (chain_blocks bc) = length calls + 1
     \<and> map index (chain_blocks bc) = [0..<length calls + 1]
     \<and> (\<forall>i. 1 \<le> i \<and> i \<le> length calls \<longrightarrow>
           prevHash (chain_blocks bc ! i) = hash (chain_blocks bc ! (i - 1)))"
proof -
  from new_Blockchain_genesis [OF assms(1)] obtain g where
    g: "chain_blocks bc0 = [g]" "index g = 0" by blast
  have ne: "chain_blocks bc0 \<noteq> []" using g by simp
  have idx0: "\<forall>i<length (chain_blocks bc0). index (chain_blocks bc0 ! i) = i" using g by simp
  have lnk0: "\<forall>i. 1 \<le> i \<and> i < length (chain_blocks bc0) \<longrightarrow>
           prevHash (chain_blocks bc0 ! i) = hash (chain_blocks bc0 ! (i - 1))" using g by simp
  from appends_linked [OF assms(2) ne idx0 lnk0] have
    len: "length (chain_blocks bc) = length calls + 1"
    and idx: "\<forall>i<length (chain_blocks bc). index (chain_blocks bc ! i) = i"
    and lnk: "\<forall>i. 1 \<le> i \<and> i < length (chain_blocks bc) \<longrightarrow>
           prevHash (chain_blocks bc ! i) = hash (chain_blocks bc ! (i - 1))"
    using g by simp_all
  have "map index (chain_blocks bc) = [0..<length calls + 1]"
    by (rule nth_equalityI) (use len idx in \<open>simp_all del: upt_Suc\<close>)
  moreover have "\<forall>i. 1 \<le> i \<and> i \<le> length calls \<longrightarrow>
           prevHash (chain_blocks bc ! i) = hash (chain_blocks bc ! (i - 1))"
    using lnk len by simp
  ultimately show ?thesis using len by blast
qed



lemma toy_new_Blockchain:
  "new_Blockchain toy_sha256 toy_stringify 5 [] 1 =
     Some \<lparr>defaultDifficulty = 1, chain_blocks = [toy_genesis], dbFile = [toy_genesis]\<rparr>"
  by (simp add: new_Blockchain_def createGenesisBlock_def toy_proofOfWork repeat_zero save_def
        toy_genesis_def Let_def)

lemma toy_appends:
  "appends toy_sha256 toy_stringify
     \<lparr>defaultDifficulty = 1, chain_blocks = [toy_genesis], dbFile = [toy_genesis]\<rparr>
     [(6, SetBlock JNull), (7, MineBlock (JStr ''a'') None)] =
     Some \<lparr>defaultDifficulty = 1, chain_blocks = [toy_genesis, toy_block1, toy_block2],
            dbFile = [toy_genesis, toy_block1, toy_block2]\<rparr>"
  by (simp add: setBlock_result mineBlock_result getLatestBlock_def asked_difficulty_def
        toy_proofOfWork toy_genesis_def toy_block1_def toy_block2_def)

theorem appends_from_genesis_witness:
  "new_Blockchain toy_sha256 toy_stringify 5 [] 1 =
     Some \<lparr>defaultDifficulty = 1, chain_blocks = [toy_genesis], dbFile = [toy_genesis]\<rparr>
   \<and> appends toy_sha256 toy_stringify
       \<lparr>defaultDifficulty = 1, chain_blocks = [toy_genesis], dbFile = [toy_genesis]\<rparr>
       [(6, SetBlock JNull), (7, MineBlock (JStr ''a'') None)] =
       Some \<lparr>defaultDifficulty = 1, chain_blocks = [toy_genesis, toy_block1, toy_block2],
              dbFile = [toy_genesis, toy_block1, toy_block2]\<rparr>
   \<and> map index [toy_genesis, toy_block1, toy_block2] = [0, 1, 2]
   \<and> prevHash toy_block1 = hash toy_genesis
   \<and> prevHash toy_block2 = hash toy_block1"
proof -
  let ?bc = "\<lparr>defaultDifficulty = 1, chain_blocks = [toy_genesis, toy_block1, toy_block2],
              dbFile = [toy_genesis, toy_block1, toy_block2]\<rparr>"
  let ?calls = "[(6::nat, SetBlock JNull), (7, MineBlock (JStr ''a'') None)]"
  note inst = appends_from_genesis [OF toy_new_Blockchain toy_appends]
  have idx: "map index (chain_blocks ?bc) = [0..<length ?calls + 1]"
    by (rule inst [THEN conjunct2, THEN conjunct1])
  have lnk: "\<forall>i. 1 \<le> i \<and> i \<le> length ?calls \<longrightarrow>
           prevHash (chain_blocks ?bc ! i) = hash (chain_blocks ?bc ! (i - 1))"
    by (rule inst [THEN conjunct2, THEN conjunct2])
  have i3: "map index [toy_genesis, toy_block1, toy_block2] = [0, 1, 2]"
    using idx by (simp add: numeral_2_eq_2)
  from spec [OF lnk, of 1] have l1: "prevHash toy_block1 = hash toy_genesis" by simp
  from spec [OF lnk, of 2] have l2: "prevHash toy_block2 = hash toy_block1" by simp
  show ?thesis
    by (intro conjI) (rule toy_new_Blockchain toy_appends i3 l1 l2)+
qed




subsection \<open>Resolve against several peers\<close>

lemma resolve_valid_single: "resolve_valid_loop sha256 stringify [a] (Suc 0)"
  by (simp add: resolve_valid_loop_iff)

lemma resolve_valid_pair:
  "resolve_valid_loop sha256 stringify [a, b] (Suc 0) = resolve_pair_ok sha256 stringify b a"
  using resolve_valid_snoc [of sha256 stringify "[]" a b] by (simp add: resolve_valid_single)

lemma resolve_valid_triple:
  "resolve_valid_loop sha256 stringify [a, b, c] (Suc 0) =
     (resolve_pair_ok sha256 stringify b a \<and> resolve_pair_ok sha256 stringify c b)"
  using resolve_valid_snoc [of sha256 stringify "[a]" b c] by (simp add: resolve_valid_pair)

lemma isChainValid_triple:
  "isChainValid sha256 stringify [a, b, c] =
     (isValidNewBlock sha256 stringify b a \<and> isValidNewBlock sha256 stringify c b)"
  using isChainValid_snoc [of sha256 stringify "[a]" b c] by (simp add: isChainValid_pair)

lemma easy_block_ok: "resolve_pair_ok sha256 stringify (easy_block sha256 stringify idx prev) prev"
  by (simp add: resolve_pair_ok_def easy_block_def calculateHash_def startsWith_def repeat_def)

lemma easy_block_valid:
  "isValidNewBlock sha256 stringify (easy_block sha256 stringify idx prev) prev = (idx = index prev + 1)"
  by (auto simp: isValidNewBlock_checks easy_block_def startsWith_def repeat_def)

text \<open>
  C3. The claim: resolve keeps as best the longest fetched candidate among those that pass
  \<open>isChainValid\<close>, a candidate that fails validation does not affect the running best,
  and the local chain is replaced exactly when some fetched candidate that passes
  \<open>isChainValid\<close> is strictly longer than it. The code at this input: the local chain is
  the first block alone; one peer serves a valid chain of length 2; another serves a chain
  of length 3 whose blocks are hashed and linked correctly with difficulty 0 but carry the
  indices 0, 7, 8. The loop inside resolve compares no indices, so it takes the second
  chain as best; \<open>replaceChain\<close> then refuses it, and the node keeps its chain of length 1
  although a valid chain of length 2 was fetched. With the first peer alone the node
  adopts that chain.
\<close>

theorem resolve_drops_valid_candidate:
  "isChainValid sha256 stringify
     [plain_genesis, easy_block sha256 stringify 1 plain_genesis]
   \<and> \<not> isChainValid sha256 stringify
     [plain_genesis, easy_block sha256 stringify 7 plain_genesis,
      easy_block sha256 stringify 8 (easy_block sha256 stringify 7 plain_genesis)]
   \<and> resolve sha256 stringify
       \<lparr>defaultDifficulty = 3, chain_blocks = [plain_genesis], dbFile = [plain_genesis]\<rparr>
       [Some [plain_genesis, easy_block sha256 stringify 1 plain_genesis],
        Some [plain_genesis, easy_block sha256 stringify 7 plain_genesis,
              easy_block sha256 stringify 8 (easy_block sha256 stringify 7 plain_genesis)]]
     = (False, \<lparr>defaultDifficulty = 3, chain_blocks = [plain_genesis], dbFile = [plain_genesis]\<rparr>)
   \<and> resolve sha256 stringify
       \<lparr>defaultDifficulty = 3, chain_blocks = [plain_genesis], dbFile = [plain_genesis]\<rparr>
       [Some [plain_genesis, easy_block sha256 stringify 1 plain_genesis]]
     = (True, \<lparr>defaultDifficulty = 3,
               chain_blocks = [plain_genesis, easy_block sha256 stringify 1 plain_genesis],
               dbFile = [plain_genesis, easy_block sha256 stringify 1 plain_genesis]\<rparr>)"
proof -
  let ?g = plain_genesis
  let ?a = "easy_block sha256 stringify 1 ?g"
  let ?x = "easy_block sha256 stringify 7 ?g"
  let ?y = "easy_block sha256 stringify 8 ?x"
  let ?bc = "\<lparr>defaultDifficulty = 3, chain_blocks = [?g], dbFile = [?g]\<rparr>"
  have va: "isChainValid sha256 stringify [?g, ?a]"
    by (simp add: isChainValid_pair easy_block_valid plain_genesis_def)
  have vx: "\<not> isChainValid sha256 stringify [?g, ?x, ?y]"
    by (simp add: isChainValid_triple easy_block_valid plain_genesis_def)
  have ra: "resolve_valid_loop sha256 stringify [?g, ?a] 1"
    by (simp add: resolve_valid_pair easy_block_ok)
  have rx: "resolve_valid_loop sha256 stringify [?g, ?x, ?y] 1"
    by (simp add: resolve_valid_triple easy_block_ok)
  have scan: "resolve_peers sha256 stringify (chain_blocks ?bc) [Some [?g, ?a], Some [?g, ?x, ?y]]
                = [?g, ?x, ?y]"
    using ra rx by simp
  have r2: "resolve sha256 stringify ?bc [Some [?g, ?a], Some [?g, ?x, ?y]] = (False, ?bc)"
    unfolding resolve_def Let_def scan using vx by (simp add: replaceChain_def)
  have scan1: "resolve_peers sha256 stringify (chain_blocks ?bc) [Some [?g, ?a]] = [?g, ?a]"
    using ra by simp
  have r1: "resolve sha256 stringify ?bc [Some [?g, ?a]] =
              (True, \<lparr>defaultDifficulty = 3, chain_blocks = [?g, ?a], dbFile = [?g, ?a]\<rparr>)"
    unfolding resolve_def Let_def scan1 using va by (simp add: replaceChain_def save_def)
  show ?thesis
    by (intro conjI) (rule va vx r2 r1)+
qed

section \<open>Properties of blocks from the wire\<close>

subsection \<open>Doubles\<close>

text \<open>
  Integers up to \<open>2^53\<close> in absolute value are doubles, so \<^verbatim>\<open>x + 1\<close> is the successor
  on the integers from \<open>-2^53\<close> to \<open>2^53 - 1\<close>; at \<open>2^53\<close> the sum rounds back to
  \<open>2^53\<close>.
\<close>

lemma round_half_even_of_int [simp]: "round_half_even (of_int z) = z"
  by (simp add: round_half_even_def)

lemma floor_log2_le:
  assumes "0 < q"
  shows "2 powi (floor_log2 q) \<le> q"
proof -
  obtain a b where ab: "quotient_of q = (a, b)" by (cases "quotient_of q")
  then have b: "0 < b" by (rule quotient_of_denom_pos)
  from ab have q: "q = of_int a / of_int b" by (simp add: quotient_of_div)
  with assms b have a: "0 < a" by (simp add: zero_less_divide_iff)
  let ?k = "bitlen a - bitlen b"
  have la: "2 ^ nat (bitlen a - 1) \<le> a" and lb: "b < 2 ^ nat (bitlen b)"
    using bitlen_bounds [OF a] bitlen_bounds [OF b] by simp_all
  have la1: "1 \<le> bitlen a" using a bitlen_eq_zero_iff [of a] bitlen_nonneg [of a] by linarith
  have lb0: "0 \<le> bitlen b" by (rule bitlen_nonneg)
  show ?thesis
  proof (cases "(2::rat) powi ?k \<le> q")
    case True
    then show ?thesis by (simp add: floor_log2_def ab)
  next
    case False
    have A: "(2::rat) ^ nat (bitlen a - 1) \<le> of_int a"
    proof -
      from la have "(of_int (2 ^ nat (bitlen a - 1)) :: rat) \<le> of_int a" by (simp only: of_int_le_iff)
      then show ?thesis by simp
    qed
    have B: "(of_int b :: rat) \<le> 2 ^ nat (bitlen b)"
    proof -
      from lb have "b \<le> 2 ^ nat (bitlen b)" by simp
      then have "(of_int b :: rat) \<le> of_int (2 ^ nat (bitlen b))" by (simp only: of_int_le_iff)
      then show ?thesis by simp
    qed
    have "?k - 1 = int (nat (bitlen a - 1)) - int (nat (bitlen b))"
      using la1 lb0 by simp
    then have "(2::rat) powi (?k - 1) = 2 powi (int (nat (bitlen a - 1)) - int (nat (bitlen b)))"
      by (simp only:)
    also have "\<dots> = 2 ^ nat (bitlen a - 1) / 2 ^ nat (bitlen b)"
      using power_int_diff [of "2::rat" "int (nat (bitlen a - 1))" "int (nat (bitlen b))"]
      by (simp only: power_int_of_nat) simp
    also have "\<dots> \<le> of_int a / 2 ^ nat (bitlen b)"
      using A by (simp add: divide_right_mono)
    also have "\<dots> \<le> of_int a / of_int b"
      using B a b by (simp add: divide_left_mono)
    finally have "(2::rat) powi (?k - 1) \<le> of_int a / of_int b" .
    then have "(2::rat) powi (?k - 1) \<le> q" by (simp only: q)
    with False show ?thesis by (simp add: floor_log2_def ab)
  qed
qed

lemma to_double_of_int:
  assumes "\<bar>m\<bar> \<le> 2 ^ 53"
  shows "to_double (of_int m) = Finite (of_int m)"
proof (cases "m = 0")
  case True
  then show ?thesis by (simp add: to_double_def)
next
  case False
  let ?q = "of_int m :: rat"
  let ?e = "floor_log2 \<bar>?q\<bar>"
  let ?ue = "max (?e - 52) (- 1074)"
  have pos: "0 < \<bar>?q\<bar>" using False by simp
  have "2 powi ?e \<le> \<bar>?q\<bar>" using pos by (rule floor_log2_le)
  also have "\<bar>?q\<bar> \<le> 2 ^ 53"
  proof -
    have "(of_int \<bar>m\<bar> :: rat) \<le> of_int (2 ^ 53)" using assms by (simp only: of_int_le_iff)
    then show ?thesis by simp
  qed
  finally have e_le: "(2::rat) powi ?e \<le> 2 powi 53" by simp
  have e53: "?e \<le> 53"
  proof (rule ccontr)
    assume "\<not> ?e \<le> 53"
    then have "54 \<le> ?e" by simp
    then have "(2::rat) powi 54 \<le> 2 powi ?e" by (intro power_int_increasing) simp_all
    with e_le show False by simp
  qed
  have integral: "\<exists>z. ?q / 2 powi ?ue = of_int z"
  proof (cases "?ue \<le> 0")
    case True
    then have "?ue = - int (nat (- ?ue))" by simp
    then have "(2::rat) powi ?ue = 2 powi (- int (nat (- ?ue)))" by (simp only:)
    then have "(2::rat) powi ?ue = inverse (2 ^ nat (- ?ue))"
      by (simp only: power_int_minus power_int_of_nat)
    then have "?q / 2 powi ?ue = of_int (m * 2 ^ nat (- ?ue))" by (simp add: field_simps)
    then show ?thesis by blast
  next
    case False
    with e53 have ue: "?ue = 1" and e: "?e = 53" by simp_all
    from \<open>2 powi ?e \<le> \<bar>?q\<bar>\<close> e have "(2::rat) ^ 53 \<le> \<bar>?q\<bar>" by simp
    then have "(of_int (2 ^ 53) :: rat) \<le> of_int \<bar>m\<bar>" by simp
    then have "2 ^ 53 \<le> \<bar>m\<bar>" by (simp only: of_int_le_iff)
    with assms have "\<bar>m\<bar> = 2 ^ 53" by simp
    then have "m = 2 ^ 53 \<or> m = - (2 ^ 53)" by linarith
    then have "?q / 2 powi ?ue = of_int (m div 2)" using ue by auto
    then show ?thesis by blast
  qed
  then obtain z where z: "?q / 2 powi ?ue = of_int z" ..
  have u0: "(2::rat) powi ?ue \<noteq> 0" by simp
  have r: "of_int (round_half_even (?q / 2 powi ?ue)) * 2 powi ?ue = ?q"
    using z u0 by (simp only: round_half_even_of_int) (metis nonzero_divide_eq_eq z)
  have small: "\<not> (2::rat) powi 1024 \<le> \<bar>?q\<bar>"
  proof -
    have "\<bar>?q\<bar> \<le> 2 ^ 53" by fact
    also have "(2::rat) ^ 53 < 2 ^ 1024" by simp
    finally show ?thesis by simp
  qed
  show ?thesis
    using False r small by (simp add: to_double_def Let_def)
qed

lemma js_add1_int:
  assumes "- (2 ^ 53) \<le> k" and "k < 2 ^ 53"
  shows "js_add1 (Finite (of_int k)) = Finite (of_int (k + 1))"
proof -
  have "\<bar>k + 1\<bar> \<le> 2 ^ 53" using assms by linarith
  from to_double_of_int [OF this] show ?thesis by (simp add: js_add1_def)
qed

lemma js_add1_stalls: "js_add1 (Finite (2 ^ 53)) = Finite (2 ^ 53)"
  by code_simp

lemma js_add1_0: "js_add1 (Finite 0) = Finite 1"
  using js_add1_int [of 0] by simp

lemma js_add1_nat:
  assumes "n < 2 ^ 53"
  shows "js_add1 (Finite (of_nat n)) = Finite (of_nat (Suc n))"
proof -
  have "int n < 2 ^ 53" using assms by (simp add: of_nat_less_iff [of n "2 ^ 53", where ?'a = int, simplified])
  then have "js_add1 (Finite (of_int (int n))) = Finite (of_int (int n + 1))"
    by (intro js_add1_int) simp_all
  then show ?thesis by (simp add: add.commute)
qed

lemma js_add1_nat_stalls: "js_add1 (Finite (of_nat ((2::nat) ^ 53))) = Finite (of_nat (2 ^ 53))"
  using js_add1_stalls by simp

subsection \<open>The target of a difficulty that is a number\<close>

lemma repeat_js_zero:
  "repeat_js maxLength ''0'' d =
     (case zero_count maxLength d of
        None \<Rightarrow> Inl RangeError
      | Some n \<Rightarrow> Inr (replicate n (CHR ''0'')))"
  by (auto simp: repeat_js_def zero_count_def repeat_zero Let_def split: number.splits)

lemma startsWith_zeros: "startsWith h (replicate n (CHR ''0'')) = (n \<le> leadingZeros h)"
  using startsWith_target [of h n] by (simp add: repeat_zero)

lemma zero_count_examples:
  "zero_count 536870888 (Finite (3 / 2)) = Some 1"
  "zero_count 536870888 (Finite (- 1)) = None"
  "zero_count 536870888 (Finite 3) = Some 3"
  "zero_count maxLength (Finite 0) = Some 0"
proof -
  have "\<lfloor>3 / 2 :: rat\<rfloor> = 1" by (rule floor_unique) simp_all
  then show "zero_count 536870888 (Finite (3 / 2)) = Some 1"
    by (simp add: zero_count_def js_trunc_def)
qed (simp_all add: zero_count_def js_trunc_def)

lemma zero_count_below_one:
  assumes "- 1 < q" and "q < 1"
  shows "zero_count maxLength (Finite q) = Some 0"
proof -
  have "js_trunc q = 0"
    using assms unfolding js_trunc_def by (auto simp: floor_eq_iff ceiling_eq_iff)
  then show ?thesis by (simp add: zero_count_def)
qed

lemma zero_count_of_nat:
  "zero_count maxLength (Finite (of_nat n)) = (if n \<le> maxLength then Some n else None)"
  by (simp add: zero_count_def js_trunc_def)

subsection \<open>A block from the wire against its parent\<close>

lemma isValidNewBlock_js_cases:
  "isValidNewBlock_js maxLength sha256 stringify c p =
     (if index_js c = js_add1 (index_js p) \<and> prevHash_js c = hash_js p
         \<and> sha256 (stringify (hashed_js c)) = hash_js c
      then (case zero_count maxLength (difficulty_js c) of
              None \<Rightarrow> Inl RangeError
            | Some n \<Rightarrow> Inr (n \<le> leadingZeros (hash_js c)))
      else Inr False)"
  by (auto simp: isValidNewBlock_js_def repeat_js_zero calculateHash_js_def Let_def
        startsWith_def leadingZeros_def take_replicate_takeWhile split: option.splits)

lemma honest_js_cases:
  "isValidNewBlock_js maxLength sha256 stringify (honest_js sha256 stringify idx dat d prev) prev =
     (if idx = js_add1 (index_js prev)
      then (case zero_count maxLength d of
              None \<Rightarrow> Inl RangeError
            | Some n \<Rightarrow> Inr (n \<le> leadingZeros
                (calculateHash_js sha256 stringify idx (Finite 1) dat (hash_js prev) (Finite 0) d)))
      else Inr False)"
  by (simp add: isValidNewBlock_js_cases honest_js_def calculateHash_js_def split: option.splits)

lemma honest_js_claimed:
  "claimed_valid sha256 stringify (honest_js sha256 stringify idx dat d prev) prev =
     (exact_successor (index_js prev) idx
      \<and> at_least_leading_zeros
           (calculateHash_js sha256 stringify idx (Finite 1) dat (hash_js prev) (Finite 0) d) d)"
  by (simp add: claimed_valid_def honest_js_def)

lemma toy_calculateHash_js:
  "calculateHash_js toy_sha256_js toy_stringify_js idx ts dat ph (Finite q) d =
     (if 3 \<le> q then ''00'' else if 1 \<le> q then ''0a'' else ''1'')"
  by (simp add: calculateHash_js_def toy_sha256_js_def toy_stringify_js_def payload_js_def)

lemma toy_leadingZeros_js:
  "leadingZeros (calculateHash_js toy_sha256_js toy_stringify_js idx ts dat ph (Finite (of_nat m)) d) =
     (if 3 \<le> m then 2 else if 1 \<le> m then 1 else 0)"
proof -
  have "((3::rat) \<le> of_nat m) = (3 \<le> m)" "((1::rat) \<le> of_nat m) = (1 \<le> m)"
    using of_nat_le_iff [of 3 m, where ?'a = rat] of_nat_le_iff [of 1 m, where ?'a = rat] by simp_all
  then show ?thesis by (simp add: toy_calculateHash_js leadingZeros_def)
qed

lemma toy_leadingZeros_js_at:
  "leadingZeros (calculateHash_js toy_sha256_js toy_stringify_js idx ts dat ph (Finite q) d) =
     (if 3 \<le> q then 2 else if 1 \<le> q then 1 else 0)"
  by (simp add: toy_calculateHash_js leadingZeros_def)

lemma toy_fraction_js_accepted:
  "isValidNewBlock_js 536870888 toy_sha256_js toy_stringify_js toy_fraction_js (first_js (Finite 0))
     = Inr True"
  "\<not> claimed_valid toy_sha256_js toy_stringify_js toy_fraction_js (first_js (Finite 0))"
proof -
  have h: "sha256 (stringify (hashed_js b)) =
             calculateHash_js sha256 stringify (index_js b) (timestamp_js b) (data_js b) (prevHash_js b)
               (nonce_js b) (difficulty_js b)" for sha256 stringify b
    by (simp add: calculateHash_js_def)
  show "isValidNewBlock_js 536870888 toy_sha256_js toy_stringify_js toy_fraction_js (first_js (Finite 0))
     = Inr True"
    unfolding isValidNewBlock_js_cases h
    by (simp add: toy_fraction_js_def first_js_def js_add1_0 toy_calculateHash_js zero_count_examples
          leadingZeros_def)
  show "\<not> claimed_valid toy_sha256_js toy_stringify_js toy_fraction_js (first_js (Finite 0))"
    by (simp add: claimed_valid_def toy_fraction_js_def at_least_leading_zeros_def leadingZeros_def)
qed

text \<open>
  C4. For every candidate \<open>c\<close> and parent \<open>p\<close> whose numeric fields are numbers and whose
  hashes are strings, \<open>isValidNewBlock(c, p)\<close> returns true if and only if \<open>c.index\<close> is
  the double \<open>p.index + 1\<close> (the successor of \<open>p.index\<close> when that is an integer from
  \<open>-2^53\<close> to \<open>2^53 - 1\<close>, by \<open>js_add1_int\<close>), \<open>c.prevHash\<close> is \<open>p.hash\<close>, the hash
  recomputed over the six fields of \<open>c\<close> is \<open>c.hash\<close>, and \<open>c.difficulty\<close> truncated
  toward zero is a count \<open>n\<close> from 0 to the longest string length such that \<open>c.hash\<close> has
  at least \<open>n\<close> leading zero characters. It throws a RangeError if and only if the first
  three conditions hold and \<open>c.difficulty\<close> truncated is negative, infinite or beyond the
  longest string length. In every other case it returns false.
\<close>

theorem isValidNewBlock_js_iff:
  "(isValidNewBlock_js maxLength sha256 stringify c p = Inr True) =
     (index_js c = js_add1 (index_js p)
      \<and> prevHash_js c = hash_js p
      \<and> calculateHash_js sha256 stringify (index_js c) (timestamp_js c) (data_js c) (prevHash_js c)
           (nonce_js c) (difficulty_js c) = hash_js c
      \<and> (\<exists>n. zero_count maxLength (difficulty_js c) = Some n \<and> n \<le> leadingZeros (hash_js c)))
   \<and> (isValidNewBlock_js maxLength sha256 stringify c p = Inl RangeError) =
     (index_js c = js_add1 (index_js p)
      \<and> prevHash_js c = hash_js p
      \<and> calculateHash_js sha256 stringify (index_js c) (timestamp_js c) (data_js c) (prevHash_js c)
           (nonce_js c) (difficulty_js c) = hash_js c
      \<and> zero_count maxLength (difficulty_js c) = None)
   \<and> (isValidNewBlock_js maxLength sha256 stringify c p = Inr True
      \<or> isValidNewBlock_js maxLength sha256 stringify c p = Inr False
      \<or> isValidNewBlock_js maxLength sha256 stringify c p = Inl RangeError)"
  by (auto simp: isValidNewBlock_js_cases calculateHash_js_def split: option.splits)

text \<open>
  C4 as the specification words it, with \<open>c.index == p.index + 1\<close> and at least
  \<open>c.difficulty\<close> leading zeros read of the numbers themselves, fails at three inputs.
  For every digest and serializer: a block of index 1 and difficulty \<open>-1\<close> on a first
  block of index 0, carrying the hash of its own fields, meets the four conditions, and
  the call throws a RangeError; a block of index \<open>2^53\<close> on a parent of index \<open>2^53\<close>
  does not meet the first condition, and the call returns true. With the digest of the
  examples: a block of difficulty 1.5 whose hash has one leading zero does not meet the
  fourth condition, and the call returns true.
\<close>

theorem isValidNewBlock_claim_counterexample:
  "(\<forall>maxLength sha256 stringify.
     claimed_valid sha256 stringify
       (honest_js sha256 stringify (Finite 1) VNull (Finite (- 1)) (first_js (Finite 0)))
       (first_js (Finite 0))
     \<and> isValidNewBlock_js maxLength sha256 stringify
         (honest_js sha256 stringify (Finite 1) VNull (Finite (- 1)) (first_js (Finite 0)))
         (first_js (Finite 0)) = Inl RangeError
     \<and> \<not> claimed_valid sha256 stringify
         (honest_js sha256 stringify (Finite (2 ^ 53)) VNull (Finite 0) (first_js (Finite (2 ^ 53))))
         (first_js (Finite (2 ^ 53)))
     \<and> isValidNewBlock_js maxLength sha256 stringify
         (honest_js sha256 stringify (Finite (2 ^ 53)) VNull (Finite 0) (first_js (Finite (2 ^ 53))))
         (first_js (Finite (2 ^ 53))) = Inr True)
   \<and> \<not> claimed_valid toy_sha256_js toy_stringify_js toy_fraction_js (first_js (Finite 0))
   \<and> isValidNewBlock_js 536870888 toy_sha256_js toy_stringify_js toy_fraction_js (first_js (Finite 0))
       = Inr True"
proof (intro allI conjI)
  fix maxLength :: nat and sha256 :: "string \<Rightarrow> string" and stringify :: "jsvalue \<Rightarrow> string"
  show "claimed_valid sha256 stringify
       (honest_js sha256 stringify (Finite 1) VNull (Finite (- 1)) (first_js (Finite 0)))
       (first_js (Finite 0))"
    by (simp add: honest_js_claimed first_js_def exact_successor_def at_least_leading_zeros_def)
  show "isValidNewBlock_js maxLength sha256 stringify
         (honest_js sha256 stringify (Finite 1) VNull (Finite (- 1)) (first_js (Finite 0)))
         (first_js (Finite 0)) = Inl RangeError"
    by (simp add: honest_js_cases first_js_def js_add1_0 zero_count_def js_trunc_def)
  show "\<not> claimed_valid sha256 stringify
         (honest_js sha256 stringify (Finite (2 ^ 53)) VNull (Finite 0) (first_js (Finite (2 ^ 53))))
         (first_js (Finite (2 ^ 53)))"
    by (simp add: honest_js_claimed first_js_def exact_successor_def)
  show "isValidNewBlock_js maxLength sha256 stringify
         (honest_js sha256 stringify (Finite (2 ^ 53)) VNull (Finite 0) (first_js (Finite (2 ^ 53))))
         (first_js (Finite (2 ^ 53))) = Inr True"
    by (simp add: honest_js_cases first_js_def js_add1_stalls [simplified] zero_count_def js_trunc_def)
next
  show "\<not> claimed_valid toy_sha256_js toy_stringify_js toy_fraction_js (first_js (Finite 0))"
    by (rule toy_fraction_js_accepted(2))
  show "isValidNewBlock_js 536870888 toy_sha256_js toy_stringify_js toy_fraction_js (first_js (Finite 0))
       = Inr True"
    by (rule toy_fraction_js_accepted(1))
qed

subsection \<open>Receiving a block from the wire\<close>





subsection \<open>Proof of work for a difficulty that is a number\<close>

lemma proofOfWork_js_loop_finds:
  assumes "startsWith (calculateHash_js sha256 stringify idx ts dat ph (Finite (of_nat m)) d) target"
    and "n \<le> m" and "m \<le> 2 ^ 53"
    and "\<forall>k. n \<le> k \<and> k < m \<longrightarrow>
           \<not> startsWith (calculateHash_js sha256 stringify idx ts dat ph (Finite (of_nat k)) d) target"
  shows "proofOfWork_js_loop sha256 stringify idx ts dat ph d target (Finite (of_nat n)) =
           Some (Finite (of_nat m), calculateHash_js sha256 stringify idx ts dat ph (Finite (of_nat m)) d)"
  using assms
proof (induction "m - n" arbitrary: n)
  case 0
  then have "n = m" by simp
  with "0.prems"(1) show ?case
    by (subst proofOfWork_js_loop.simps) (simp add: Let_def)
next
  case (Suc x)
  then have lt: "n < m" by simp
  with Suc.prems(4)
  have miss: "\<not> startsWith (calculateHash_js sha256 stringify idx ts dat ph (Finite (of_nat n)) d) target"
    by simp
  from lt Suc.prems(3) have "n < 2 ^ 53" by simp
  then have step: "js_add1 (Finite (of_nat n)) = Finite (of_nat (Suc n))" by (rule js_add1_nat)
  have "proofOfWork_js_loop sha256 stringify idx ts dat ph d target (Finite (of_nat (Suc n))) =
          Some (Finite (of_nat m), calculateHash_js sha256 stringify idx ts dat ph (Finite (of_nat m)) d)"
  proof (rule Suc.hyps(1))
    show "x = m - Suc n" using Suc.hyps(2) by simp
    show "startsWith (calculateHash_js sha256 stringify idx ts dat ph (Finite (of_nat m)) d) target"
      by (rule Suc.prems(1))
    show "Suc n \<le> m" using lt by simp
    show "m \<le> 2 ^ 53" by (rule Suc.prems(3))
    show "\<forall>k. Suc n \<le> k \<and> k < m \<longrightarrow>
            \<not> startsWith (calculateHash_js sha256 stringify idx ts dat ph (Finite (of_nat k)) d) target"
      using Suc.prems(4) by simp
  qed
  with miss step show ?case
    by (subst proofOfWork_js_loop.simps) (simp only: Let_def if_False)
qed

text \<open>
  A run that starts at an integer nonce up to \<open>2^53\<close> and returns, returns a nonce of
  that range: past \<open>2^53\<close> the step \<^verbatim>\<open>nonce++\<close> leaves the nonce where it is.
\<close>

lemma proofOfWork_js_loop_sound:
  assumes "proofOfWork_js_loop sha256 stringify idx ts dat ph d target n = Some y"
  shows "\<forall>n0. n = Finite (of_nat n0) \<and> n0 \<le> 2 ^ 53 \<longrightarrow>
           (\<exists>k. n0 \<le> k \<and> k \<le> 2 ^ 53
              \<and> y = (Finite (of_nat k), calculateHash_js sha256 stringify idx ts dat ph (Finite (of_nat k)) d)
              \<and> startsWith (calculateHash_js sha256 stringify idx ts dat ph (Finite (of_nat k)) d) target)"
proof (rule proofOfWork_js_loop.raw_induct
    [where P = "\<lambda>sha256 stringify idx ts dat ph d target n y.
        \<forall>n0. n = Finite (of_nat n0) \<and> n0 \<le> 2 ^ 53 \<longrightarrow>
           (\<exists>k. n0 \<le> k \<and> k \<le> 2 ^ 53
              \<and> y = (Finite (of_nat k), calculateHash_js sha256 stringify idx ts dat ph (Finite (of_nat k)) d)
              \<and> startsWith (calculateHash_js sha256 stringify idx ts dat ph (Finite (of_nat k)) d) target)"])
  show "proofOfWork_js_loop sha256 stringify idx ts dat ph d target n = Some y"
    by (rule assms)
next
  fix loop :: "(string \<Rightarrow> string) \<Rightarrow> (jsvalue \<Rightarrow> string) \<Rightarrow> number \<Rightarrow> number \<Rightarrow> jsvalue \<Rightarrow> string \<Rightarrow> number
     \<Rightarrow> string \<Rightarrow> number \<Rightarrow> (number \<times> string) option"
  fix sha256 stringify idx ts dat ph d target n y
  assume IH: "\<And>sha256 stringify idx ts dat ph d target n y.
        loop sha256 stringify idx ts dat ph d target n = Some y \<Longrightarrow>
        \<forall>n0. n = Finite (of_nat n0) \<and> n0 \<le> 2 ^ 53 \<longrightarrow>
           (\<exists>k. n0 \<le> k \<and> k \<le> 2 ^ 53
              \<and> y = (Finite (of_nat k), calculateHash_js sha256 stringify idx ts dat ph (Finite (of_nat k)) d)
              \<and> startsWith (calculateHash_js sha256 stringify idx ts dat ph (Finite (of_nat k)) d) target)"
    and eq: "(let h = calculateHash_js sha256 stringify idx ts dat ph n d
      in if startsWith h target then Some (n, h)
         else loop sha256 stringify idx ts dat ph d target (js_add1 n)) = Some y"
  show "\<forall>n0. n = Finite (of_nat n0) \<and> n0 \<le> 2 ^ 53 \<longrightarrow>
           (\<exists>k. n0 \<le> k \<and> k \<le> 2 ^ 53
              \<and> y = (Finite (of_nat k), calculateHash_js sha256 stringify idx ts dat ph (Finite (of_nat k)) d)
              \<and> startsWith (calculateHash_js sha256 stringify idx ts dat ph (Finite (of_nat k)) d) target)"
  proof (intro allI impI)
    fix n0 :: nat
    assume n: "n = Finite (of_nat n0) \<and> n0 \<le> 2 ^ 53"
    show "\<exists>k. n0 \<le> k \<and> k \<le> 2 ^ 53
              \<and> y = (Finite (of_nat k), calculateHash_js sha256 stringify idx ts dat ph (Finite (of_nat k)) d)
              \<and> startsWith (calculateHash_js sha256 stringify idx ts dat ph (Finite (of_nat k)) d) target"
    proof (cases "startsWith (calculateHash_js sha256 stringify idx ts dat ph n d) target")
      case True
      with eq have "y = (n, calculateHash_js sha256 stringify idx ts dat ph n d)"
        by (auto simp: Let_def)
      with True n show ?thesis by (intro exI [of _ n0]) simp
    next
      case False
      with eq have run: "loop sha256 stringify idx ts dat ph d target (js_add1 n) = Some y"
        by (simp add: Let_def)
      show ?thesis
      proof (cases "n0 < 2 ^ 53")
        case True
        then have "js_add1 n = Finite (of_nat (Suc n0))" using n by (simp only: js_add1_nat)
        moreover from True have "Suc n0 \<le> 2 ^ 53" by simp
        ultimately obtain k where "Suc n0 \<le> k" "k \<le> 2 ^ 53"
          "y = (Finite (of_nat k), calculateHash_js sha256 stringify idx ts dat ph (Finite (of_nat k)) d)"
          "startsWith (calculateHash_js sha256 stringify idx ts dat ph (Finite (of_nat k)) d) target"
          using IH [OF run] by blast
        then show ?thesis by (intro exI [of _ k]) simp
      next
        case False
        with n have top: "n0 = 2 ^ 53" by simp
        then have "js_add1 n = Finite (of_nat n0)" using n js_add1_nat_stalls by simp
        with IH [OF run] n show ?thesis by blast
      qed
    qed
  qed
qed

lemma proofOfWork_js_unfold:
  "proofOfWork_js maxLength sha256 stringify idx ts dat ph d =
     (case zero_count maxLength d of
        None \<Rightarrow> Some (Inl RangeError)
      | Some n \<Rightarrow>
          (case proofOfWork_js_loop sha256 stringify idx ts dat ph d (replicate n (CHR ''0'')) (Finite 0) of
             None \<Rightarrow> None
           | Some r \<Rightarrow> Some (Inr r)))"
  by (simp add: proofOfWork_js_def repeat_js_zero Let_def split: option.splits)

lemma proofOfWork_js_least:
  assumes "zero_count maxLength d = Some n"
    and "m \<le> 2 ^ 53"
    and "n \<le> leadingZeros (calculateHash_js sha256 stringify idx ts dat ph (Finite (of_nat m)) d)"
    and "\<forall>k<m. \<not> n \<le> leadingZeros (calculateHash_js sha256 stringify idx ts dat ph (Finite (of_nat k)) d)"
  shows "proofOfWork_js maxLength sha256 stringify idx ts dat ph d =
           Some (Inr (Finite (of_nat m), calculateHash_js sha256 stringify idx ts dat ph (Finite (of_nat m)) d))"
proof -
  have "proofOfWork_js_loop sha256 stringify idx ts dat ph d (replicate n (CHR ''0'')) (Finite (of_nat 0)) =
          Some (Finite (of_nat m), calculateHash_js sha256 stringify idx ts dat ph (Finite (of_nat m)) d)"
    by (rule proofOfWork_js_loop_finds) (use assms in \<open>simp_all add: startsWith_zeros\<close>)
  then show ?thesis using assms(1) by (simp add: proofOfWork_js_unfold)
qed

lemma proofOfWork_js_never_returns:
  assumes "zero_count maxLength d = Some n"
    and "\<forall>m\<le>2 ^ 53. \<not> n \<le> leadingZeros (calculateHash_js sha256 stringify idx ts dat ph (Finite (of_nat m)) d)"
  shows "proofOfWork_js maxLength sha256 stringify idx ts dat ph d = None"
proof (cases "proofOfWork_js_loop sha256 stringify idx ts dat ph d (replicate n (CHR ''0'')) (Finite (of_nat 0))")
  case None
  then show ?thesis using assms(1) by (simp add: proofOfWork_js_unfold)
next
  case (Some y)
  from proofOfWork_js_loop_sound [OF this] obtain k where "k \<le> 2 ^ 53"
    "startsWith (calculateHash_js sha256 stringify idx ts dat ph (Finite (of_nat k)) d) (replicate n (CHR ''0''))"
    by auto
  with assms(2) show ?thesis by (simp add: startsWith_zeros)
qed

text \<open>A difficulty between \<open>-1\<close> and 1 asks for no work: nonce 0 is returned with its hash.\<close>

lemma proofOfWork_js_below_one:
  assumes "- 1 < q" and "q < 1"
  shows "proofOfWork_js maxLength sha256 stringify idx ts dat ph (Finite q) =
           Some (Inr (Finite 0, calculateHash_js sha256 stringify idx ts dat ph (Finite 0) (Finite q)))"
  using proofOfWork_js_least [OF zero_count_below_one [OF assms], of 0 sha256 stringify idx ts dat ph]
  by simp

lemma toy_proofOfWork_js:
  "proofOfWork_js 536870888 toy_sha256_js toy_stringify_js idx ts dat ph (Finite (3 / 2)) =
     Some (Inr (Finite 1, ''0a''))"
proof -
  have "\<forall>k<1. \<not> 1 \<le> leadingZeros
          (calculateHash_js toy_sha256_js toy_stringify_js idx ts dat ph (Finite (of_nat k)) (Finite (3 / 2)))"
    by (simp add: toy_calculateHash_js leadingZeros_def)
  from proofOfWork_js_least [OF zero_count_examples(1) _ _ this]
  show ?thesis by (simp add: toy_calculateHash_js leadingZeros_def)
qed

text \<open>
  C6. For every index, timestamp, payload, \<open>prevHash\<close> and difficulty \<open>d\<close> that is a
  number: if \<open>d\<close> truncated toward zero is negative, infinite or beyond the longest string
  length, \<open>proofOfWork\<close> throws a RangeError. Otherwise let \<open>n\<close> be \<open>d\<close> truncated
  toward zero. If some integer nonce from 0 to \<open>2^53\<close> yields a hash with at least \<open>n\<close>
  leading zero characters, then \<open>proofOfWork\<close> returns, and it returns the least such
  nonce together with the hash of the fields with that nonce, which has at least \<open>n\<close>
  leading zeros; for \<open>n = 0\<close> the nonce returned is 0. If no integer nonce from 0 to
  \<open>2^53\<close> does, \<open>proofOfWork\<close> never returns.
\<close>

theorem proofOfWork_js_spec:
  "(zero_count maxLength d = None \<longrightarrow>
      proofOfWork_js maxLength sha256 stringify idx ts dat ph d = Some (Inl RangeError))
   \<and> (\<forall>n. zero_count maxLength d = Some n
          \<and> (\<exists>m\<le>2 ^ 53. n \<le> leadingZeros
                (calculateHash_js sha256 stringify idx ts dat ph (Finite (of_nat m)) d)) \<longrightarrow>
        (\<exists>m. proofOfWork_js maxLength sha256 stringify idx ts dat ph d =
               Some (Inr (Finite (of_nat m),
                          calculateHash_js sha256 stringify idx ts dat ph (Finite (of_nat m)) d))
           \<and> m \<le> 2 ^ 53
           \<and> n \<le> leadingZeros (calculateHash_js sha256 stringify idx ts dat ph (Finite (of_nat m)) d)
           \<and> (\<forall>k<m. \<not> n \<le> leadingZeros
                 (calculateHash_js sha256 stringify idx ts dat ph (Finite (of_nat k)) d))
           \<and> (n = 0 \<longrightarrow> m = 0)))
   \<and> (\<forall>n. zero_count maxLength d = Some n
          \<and> (\<forall>m\<le>2 ^ 53. \<not> n \<le> leadingZeros
                (calculateHash_js sha256 stringify idx ts dat ph (Finite (of_nat m)) d)) \<longrightarrow>
        proofOfWork_js maxLength sha256 stringify idx ts dat ph d = None)"
proof (intro conjI allI impI)
  assume "zero_count maxLength d = None"
  then show "proofOfWork_js maxLength sha256 stringify idx ts dat ph d = Some (Inl RangeError)"
    by (simp add: proofOfWork_js_unfold)
next
  fix n
  assume a: "zero_count maxLength d = Some n
          \<and> (\<exists>m\<le>2 ^ 53. n \<le> leadingZeros
                (calculateHash_js sha256 stringify idx ts dat ph (Finite (of_nat m)) d))"
  define P where "P m = (n \<le> leadingZeros
                (calculateHash_js sha256 stringify idx ts dat ph (Finite (of_nat m)) d))" for m
  define m where "m = (LEAST m. P m)"
  from a obtain m0 where m0: "m0 \<le> 2 ^ 53" "P m0" unfolding P_def by blast
  have hit: "P m" unfolding m_def using m0(2) by (rule LeastI)
  have "m \<le> m0" unfolding m_def using m0(2) by (rule Least_le)
  with m0(1) have bound: "m \<le> 2 ^ 53" by simp
  have least: "\<forall>k<m. \<not> P k" unfolding m_def using not_less_Least by blast
  have run: "proofOfWork_js maxLength sha256 stringify idx ts dat ph d =
           Some (Inr (Finite (of_nat m), calculateHash_js sha256 stringify idx ts dat ph (Finite (of_nat m)) d))"
    using a hit least bound unfolding P_def by (intro proofOfWork_js_least) auto
  have zero: "n = 0 \<longrightarrow> m = 0"
    using least unfolding P_def by (cases m) auto
  show "\<exists>m. proofOfWork_js maxLength sha256 stringify idx ts dat ph d =
               Some (Inr (Finite (of_nat m),
                          calculateHash_js sha256 stringify idx ts dat ph (Finite (of_nat m)) d))
           \<and> m \<le> 2 ^ 53
           \<and> n \<le> leadingZeros (calculateHash_js sha256 stringify idx ts dat ph (Finite (of_nat m)) d)
           \<and> (\<forall>k<m. \<not> n \<le> leadingZeros
                 (calculateHash_js sha256 stringify idx ts dat ph (Finite (of_nat k)) d))
           \<and> (n = 0 \<longrightarrow> m = 0)"
    using run bound hit least zero unfolding P_def by (intro exI [of _ m]) simp
next
  fix n
  assume "zero_count maxLength d = Some n
          \<and> (\<forall>m\<le>2 ^ 53. \<not> n \<le> leadingZeros
                (calculateHash_js sha256 stringify idx ts dat ph (Finite (of_nat m)) d))"
  then show "proofOfWork_js maxLength sha256 stringify idx ts dat ph d = None"
    by (intro proofOfWork_js_never_returns [of maxLength d n]) simp_all
qed

theorem proofOfWork_js_spec_witness:
  "zero_count 536870888 (Finite (- 1)) = None
   \<and> proofOfWork_js 536870888 toy_sha256_js toy_stringify_js (Finite 1) (Finite 1) VNull ''00''
       (Finite (- 1)) = Some (Inl RangeError)
   \<and> zero_count 536870888 (Finite (3 / 2)) = Some 1
   \<and> proofOfWork_js 536870888 toy_sha256_js toy_stringify_js (Finite 1) (Finite 1) VNull ''00''
       (Finite (3 / 2)) = Some (Inr (Finite 1, ''0a''))
   \<and> zero_count 536870888 (Finite 3) = Some 3
   \<and> proofOfWork_js 536870888 toy_sha256_js toy_stringify_js (Finite 1) (Finite 1) VNull ''00''
       (Finite 3) = None"
proof -
  let ?H = "\<lambda>m d. calculateHash_js toy_sha256_js toy_stringify_js (Finite 1) (Finite 1) VNull ''00''
              (Finite (of_nat m)) d"
  let ?pow = "proofOfWork_js 536870888 toy_sha256_js toy_stringify_js (Finite 1) (Finite 1) VNull ''00''"
  note inst = proofOfWork_js_spec [of 536870888 _ toy_sha256_js toy_stringify_js "Finite 1" "Finite 1"
      VNull "''00''"]
  have neg: "?pow (Finite (- 1)) = Some (Inl RangeError)"
    using inst [of "Finite (- 1)", THEN conjunct1] zero_count_examples(2) by blast
  have ex: "\<exists>m\<le>2 ^ 53. 1 \<le> leadingZeros (?H m (Finite (3 / 2)))"
    by (rule exI [of _ 1]) (simp add: toy_leadingZeros_js toy_leadingZeros_js_at)
  from inst [of "Finite (3 / 2)", THEN conjunct2, THEN conjunct1, THEN spec, of 1]
    zero_count_examples(1) ex
  obtain m where run: "?pow (Finite (3 / 2)) = Some (Inr (Finite (of_nat m), ?H m (Finite (3 / 2))))"
    and hit: "1 \<le> leadingZeros (?H m (Finite (3 / 2)))"
    and least: "\<forall>k<m. \<not> 1 \<le> leadingZeros (?H k (Finite (3 / 2)))"
    by blast
  have "1 \<le> m" using hit by (cases "1 \<le> m") (simp_all add: toy_leadingZeros_js toy_leadingZeros_js_at)
  moreover have "\<not> 1 < m"
  proof
    assume "1 < m"
    with least have "\<not> 1 \<le> leadingZeros (?H 1 (Finite (3 / 2)))" by blast
    then show False by (simp add: toy_leadingZeros_js toy_leadingZeros_js_at)
  qed
  ultimately have "m = 1" by simp
  with run have frac: "?pow (Finite (3 / 2)) = Some (Inr (Finite 1, ''0a''))"
    by (simp add: toy_calculateHash_js)
  have none: "\<forall>m\<le>2 ^ 53. \<not> 3 \<le> leadingZeros (?H m (Finite 3))"
    by (simp add: toy_leadingZeros_js toy_leadingZeros_js_at)
  from inst [of "Finite 3", THEN conjunct2, THEN conjunct2, THEN spec, of 3]
    zero_count_examples(3) none
  have stall: "?pow (Finite 3) = None" by blast
  show ?thesis
    using neg frac stall zero_count_examples(1-3) by (intro conjI)
qed

text \<open>
  C6 as the specification words it, with at least \<open>d\<close> leading zeros read of the number
  \<open>d\<close>, fails at two inputs. For every digest and serializer, at difficulty \<open>-1\<close> every
  nonce yields a hash with at least \<open>d\<close> leading zeros, and \<open>proofOfWork\<close> throws a
  RangeError instead of returning a nonce. With the digest of the examples, at difficulty
  1.5 the nonce 3 yields a hash with two leading zeros, and \<open>proofOfWork\<close> returns the
  nonce 1, whose hash has one leading zero, which is less than 1.5.
\<close>

theorem proofOfWork_claim_counterexample:
  "(\<forall>maxLength sha256 stringify.
      (\<exists>n. at_least_leading_zeros
         (calculateHash_js sha256 stringify (Finite 1) (Finite 1) VNull ''00'' (Finite (of_nat n)) (Finite (- 1)))
         (Finite (- 1)))
      \<and> proofOfWork_js maxLength sha256 stringify (Finite 1) (Finite 1) VNull ''00'' (Finite (- 1))
          = Some (Inl RangeError))
   \<and> at_least_leading_zeros
       (calculateHash_js toy_sha256_js toy_stringify_js (Finite 1) (Finite 1) VNull ''00'' (Finite 3)
          (Finite (3 / 2)))
       (Finite (3 / 2))
   \<and> proofOfWork_js 536870888 toy_sha256_js toy_stringify_js (Finite 1) (Finite 1) VNull ''00''
       (Finite (3 / 2)) = Some (Inr (Finite 1, ''0a''))
   \<and> \<not> at_least_leading_zeros ''0a'' (Finite (3 / 2))"
proof (intro conjI allI)
  fix maxLength :: nat and sha256 :: "string \<Rightarrow> string" and stringify :: "jsvalue \<Rightarrow> string"
  show "\<exists>n. at_least_leading_zeros
         (calculateHash_js sha256 stringify (Finite 1) (Finite 1) VNull ''00'' (Finite (of_nat n)) (Finite (- 1)))
         (Finite (- 1))"
    by (simp add: at_least_leading_zeros_def)
  show "proofOfWork_js maxLength sha256 stringify (Finite 1) (Finite 1) VNull ''00'' (Finite (- 1))
          = Some (Inl RangeError)"
    by (simp add: proofOfWork_js_unfold zero_count_def js_trunc_def)
next
  show "at_least_leading_zeros
       (calculateHash_js toy_sha256_js toy_stringify_js (Finite 1) (Finite 1) VNull ''00'' (Finite 3)
          (Finite (3 / 2)))
       (Finite (3 / 2))"
    by (simp add: toy_calculateHash_js at_least_leading_zeros_def leadingZeros_def)
  show "proofOfWork_js 536870888 toy_sha256_js toy_stringify_js (Finite 1) (Finite 1) VNull ''00''
       (Finite (3 / 2)) = Some (Inr (Finite 1, ''0a''))"
    by (rule toy_proofOfWork_js)
  show "\<not> at_least_leading_zeros ''0a'' (Finite (3 / 2))"
    by (simp add: at_least_leading_zeros_def leadingZeros_def)
qed

subsection \<open>Tampering with a block of a valid chain\<close>

lemma all_from_split:
  fixes P :: "nat \<Rightarrow> bool"
  assumes "i < n"
  shows "(\<forall>j. i \<le> j \<and> j < n \<longrightarrow> P j) = (P i \<and> (\<forall>j. i + 1 \<le> j \<and> j < n \<longrightarrow> P j))"
proof -
  have "\<And>j. i \<le> j \<longleftrightarrow> j = i \<or> i + 1 \<le> j" by auto
  then show ?thesis using assms by auto
qed

lemma isChainValid_js_loop_true_iff:
  "(isChainValid_js_loop maxLength sha256 stringify c i = Inr True) =
     (\<forall>j. i \<le> j \<and> j < length c \<longrightarrow>
        isValidNewBlock_js maxLength sha256 stringify (c ! j) (c ! (j - 1)) = Inr True)"
proof (induction "length c - i" arbitrary: i)
  case 0
  then have "\<not> i < length c" by simp
  then show ?case by (subst isChainValid_js_loop.simps) auto
next
  case (Suc x)
  then have lt: "i < length c" by simp
  from Suc.hyps(2) have "x = length c - (i + 1)" by simp
  from Suc.hyps(1) [OF this]
  have IH: "(isChainValid_js_loop maxLength sha256 stringify c (i + 1) = Inr True) =
     (\<forall>j. i + 1 \<le> j \<and> j < length c \<longrightarrow>
        isValidNewBlock_js maxLength sha256 stringify (c ! j) (c ! (j - 1)) = Inr True)" .
  have here: "(isChainValid_js_loop maxLength sha256 stringify c i = Inr True) =
     (isValidNewBlock_js maxLength sha256 stringify (c ! i) (c ! (i - 1)) = Inr True
      \<and> isChainValid_js_loop maxLength sha256 stringify c (i + 1) = Inr True)"
  proof (cases "isValidNewBlock_js maxLength sha256 stringify (c ! i) (c ! (i - 1))")
    case (Inl e)
    with lt show ?thesis by (subst isChainValid_js_loop.simps) simp
  next
    case (Inr ok)
    with lt show ?thesis by (subst isChainValid_js_loop.simps) simp
  qed
  show ?case
    unfolding here IH
    using all_from_split [OF lt,
        of "\<lambda>j. isValidNewBlock_js maxLength sha256 stringify (c ! j) (c ! (j - 1)) = Inr True"]
    by simp
qed

lemma isChainValid_js_true_iff:
  "(isChainValid_js maxLength sha256 stringify c = Inr True) =
     (c \<noteq> [] \<and> (\<forall>j. 1 \<le> j \<and> j < length c \<longrightarrow>
        isValidNewBlock_js maxLength sha256 stringify (c ! j) (c ! (j - 1)) = Inr True))"
  by (simp add: isChainValid_js_def isChainValid_js_loop_true_iff)

lemma isChainValid_js_loop_first_false:
  assumes "i \<le> k" and "k < length c"
    and "\<forall>j. i \<le> j \<and> j < k \<longrightarrow>
           isValidNewBlock_js maxLength sha256 stringify (c ! j) (c ! (j - 1)) = Inr True"
    and "isValidNewBlock_js maxLength sha256 stringify (c ! k) (c ! (k - 1)) = Inr False"
  shows "isChainValid_js_loop maxLength sha256 stringify c i = Inr False"
  using assms
proof (induction "k - i" arbitrary: i)
  case 0
  then have "i = k" by simp
  with "0.prems"(2,4) show ?case
    by (subst isChainValid_js_loop.simps) simp
next
  case (Suc x)
  then have lt: "i < k" by simp
  with Suc.prems(3)
  have here: "isValidNewBlock_js maxLength sha256 stringify (c ! i) (c ! (i - 1)) = Inr True"
    by simp
  have "isChainValid_js_loop maxLength sha256 stringify c (i + 1) = Inr False"
  proof (rule Suc.hyps(1))
    show "x = k - (i + 1)" using Suc.hyps(2) by simp
    show "i + 1 \<le> k" using lt by simp
    show "k < length c" by (rule Suc.prems(2))
    show "\<forall>j. i + 1 \<le> j \<and> j < k \<longrightarrow>
           isValidNewBlock_js maxLength sha256 stringify (c ! j) (c ! (j - 1)) = Inr True"
      using Suc.prems(3) by simp
    show "isValidNewBlock_js maxLength sha256 stringify (c ! k) (c ! (k - 1)) = Inr False"
      by (rule Suc.prems(4))
  qed
  with here lt Suc.prems(2) show ?case
    by (subst isChainValid_js_loop.simps) simp
qed

lemma isChainValid_js_pair:
  "isChainValid_js maxLength sha256 stringify [a, b] =
     isValidNewBlock_js maxLength sha256 stringify b a"
proof -
  have "isChainValid_js_loop maxLength sha256 stringify [a, b] (Suc (Suc 0)) = Inr True"
    by (subst isChainValid_js_loop.simps) simp
  then have "isChainValid_js_loop maxLength sha256 stringify [a, b] (Suc 0) =
     isValidNewBlock_js maxLength sha256 stringify b a"
    by (subst isChainValid_js_loop.simps) (auto split: sum.splits)
  then show ?thesis by (simp add: isChainValid_js_def)
qed

lemma mutate_js_breaks_block:
  assumes v: "isValidNewBlock_js maxLength sha256 stringify b p = Inr True"
    and ch: "changes_js m b"
    and ser: "hashed_js (mutate_js m b) \<noteq> hashed_js b \<longrightarrow>
                stringify (hashed_js (mutate_js m b)) \<noteq> stringify (hashed_js b)"
    and nocoll: "stringify (hashed_js (mutate_js m b)) \<noteq> stringify (hashed_js b) \<longrightarrow>
                sha256 (stringify (hashed_js (mutate_js m b))) \<noteq> sha256 (stringify (hashed_js b))"
  shows "isValidNewBlock_js maxLength sha256 stringify (mutate_js m b) p = Inr False"
proof -
  from v have ok: "index_js b = js_add1 (index_js p)" "prevHash_js b = hash_js p"
    "sha256 (stringify (hashed_js b)) = hash_js b"
    by (auto simp: isValidNewBlock_js_cases split: if_splits)
  have rehash: "isValidNewBlock_js maxLength sha256 stringify b' p = Inr False"
    if "sha256 (stringify (hashed_js b')) \<noteq> hash_js b'" for b'
    using that by (simp add: isValidNewBlock_js_cases)
  have differs: "sha256 (stringify (hashed_js (mutate_js m b))) \<noteq> hash_js b"
    if "hashed_js (mutate_js m b) \<noteq> hashed_js b"
    using that ser nocoll ok(3) by metis
  show ?thesis
  proof (cases m)
    case (SetIndex_js x)
    with ch ok(1) show ?thesis by (auto simp: isValidNewBlock_js_cases)
  next
    case (SetPrevHash_js x)
    with ch ok(2) show ?thesis by (auto simp: isValidNewBlock_js_cases)
  next
    case (SetNonce_js x)
    with ch have "hashed_js (mutate_js m b) \<noteq> hashed_js b" by (simp add: payload_js_def)
    from differs [OF this] SetNonce_js show ?thesis by (intro rehash) simp
  next
    case (SetDifficulty_js x)
    with ch have "hashed_js (mutate_js m b) \<noteq> hashed_js b" by (simp add: payload_js_def)
    from differs [OF this] SetDifficulty_js show ?thesis by (intro rehash) simp
  next
    case (SetData_js x)
    with ch have "hashed_js (mutate_js m b) \<noteq> hashed_js b" by (simp add: payload_js_def)
    from differs [OF this] SetData_js show ?thesis by (intro rehash) simp
  next
    case (SetHash_js x)
    with ch ok(3) show ?thesis by (intro rehash) auto
  qed
qed

text \<open>
  C8. For every chain \<open>C\<close> of which \<open>isChainValid\<close> is true and every block of it but the
  first, writing a different value into exactly one of its fields \<open>index\<close>, \<open>prevHash\<close>,
  \<open>nonce\<close>, \<open>difficulty\<close>, \<open>data\<close> or \<open>hash\<close> makes \<open>isChainValid\<close> return false of
  the chain with that block replaced, under two assumptions on the tampered block and the
  original: if the objects that \<open>calculateHash\<close> serializes differ, then so do their
  serializations; and if the serializations differ, then so do their digests. The second
  is the assumption of the specification. The first is not among its assumptions, and
  \<^verbatim>\<open>JSON.stringify\<close> does not meet it for every pair of values.
\<close>

theorem mutation_js_invalidates:
  assumes "isChainValid_js maxLength sha256 stringify C = Inr True"
    and "1 \<le> i" and "i < length C"
    and "changes_js m (C ! i)"
    and "hashed_js (mutate_js m (C ! i)) \<noteq> hashed_js (C ! i) \<longrightarrow>
           stringify (hashed_js (mutate_js m (C ! i))) \<noteq> stringify (hashed_js (C ! i))"
    and "stringify (hashed_js (mutate_js m (C ! i))) \<noteq> stringify (hashed_js (C ! i)) \<longrightarrow>
           sha256 (stringify (hashed_js (mutate_js m (C ! i))))
             \<noteq> sha256 (stringify (hashed_js (C ! i)))"
  shows "isChainValid_js maxLength sha256 stringify (C[i := mutate_js m (C ! i)]) = Inr False"
proof -
  let ?C' = "C[i := mutate_js m (C ! i)]"
  from assms(1) have all: "\<forall>j. 1 \<le> j \<and> j < length C \<longrightarrow>
        isValidNewBlock_js maxLength sha256 stringify (C ! j) (C ! (j - 1)) = Inr True"
    by (simp add: isChainValid_js_true_iff)
  from spec [OF all, of i] assms(2,3)
  have "isValidNewBlock_js maxLength sha256 stringify (C ! i) (C ! (i - 1)) = Inr True"
    by simp
  from mutate_js_breaks_block [OF this assms(4) assms(5) assms(6)]
  have bad: "isValidNewBlock_js maxLength sha256 stringify (mutate_js m (C ! i)) (C ! (i - 1)) = Inr False" .
  have "?C' ! i = mutate_js m (C ! i)"
    using assms(3) by simp
  moreover have "?C' ! (i - 1) = C ! (i - 1)"
    using assms(2) by simp
  ultimately have here: "isValidNewBlock_js maxLength sha256 stringify (?C' ! i) (?C' ! (i - 1)) = Inr False"
    using bad by simp
  have before: "\<forall>j. 1 \<le> j \<and> j < i \<longrightarrow>
           isValidNewBlock_js maxLength sha256 stringify (?C' ! j) (?C' ! (j - 1)) = Inr True"
  proof (intro allI impI)
    fix j
    assume j: "1 \<le> j \<and> j < i"
    then have ne: "i \<noteq> j" "i \<noteq> j - 1" by arith+
    have "?C' ! j = C ! j" by (rule nth_list_update_neq) (rule ne(1))
    moreover have "?C' ! (j - 1) = C ! (j - 1)" by (rule nth_list_update_neq) (rule ne(2))
    moreover from spec [OF all, of j] j assms(3)
    have "isValidNewBlock_js maxLength sha256 stringify (C ! j) (C ! (j - 1)) = Inr True" by simp
    ultimately show "isValidNewBlock_js maxLength sha256 stringify (?C' ! j) (?C' ! (j - 1)) = Inr True"
      by simp
  qed
  have len: "i < length ?C'" using assms(3) by simp
  have "isChainValid_js_loop maxLength sha256 stringify ?C' 1 = Inr False"
    using assms(2) len before here by (rule isChainValid_js_loop_first_false)
  then show ?thesis using assms(3) by (simp add: isChainValid_js_def)
qed

theorem mutation_js_invalidates_witness:
  "isChainValid_js 536870888 toy_sha256_js toy_stringify_js [first_js (Finite 0), toy_fraction_js]
     = Inr True
   \<and> (1::nat) \<le> 1 \<and> 1 < length [first_js (Finite 0), toy_fraction_js]
   \<and> changes_js (SetNonce_js (Finite 0)) ([first_js (Finite 0), toy_fraction_js] ! 1)
   \<and> toy_stringify_js (hashed_js (mutate_js (SetNonce_js (Finite 0))
         ([first_js (Finite 0), toy_fraction_js] ! 1)))
       \<noteq> toy_stringify_js (hashed_js ([first_js (Finite 0), toy_fraction_js] ! 1))
   \<and> toy_sha256_js (toy_stringify_js (hashed_js (mutate_js (SetNonce_js (Finite 0))
         ([first_js (Finite 0), toy_fraction_js] ! 1))))
       \<noteq> toy_sha256_js (toy_stringify_js (hashed_js ([first_js (Finite 0), toy_fraction_js] ! 1)))
   \<and> isChainValid_js 536870888 toy_sha256_js toy_stringify_js
        ([first_js (Finite 0), toy_fraction_js]
           [1 := mutate_js (SetNonce_js (Finite 0)) ([first_js (Finite 0), toy_fraction_js] ! 1)])
       = Inr False"
proof -
  let ?C = "[first_js (Finite 0), toy_fraction_js]"
  have v: "isChainValid_js 536870888 toy_sha256_js toy_stringify_js ?C = Inr True"
    by (simp only: isChainValid_js_pair toy_fraction_js_accepted(1))
  have ch: "changes_js (SetNonce_js (Finite 0)) (?C ! 1)" by (simp add: toy_fraction_js_def)
  have s: "toy_stringify_js (hashed_js (mutate_js (SetNonce_js (Finite 0)) (?C ! 1)))
             \<noteq> toy_stringify_js (hashed_js (?C ! 1))"
    by (simp add: toy_fraction_js_def toy_stringify_js_def payload_js_def)
  have h: "toy_sha256_js (toy_stringify_js (hashed_js (mutate_js (SetNonce_js (Finite 0)) (?C ! 1))))
       \<noteq> toy_sha256_js (toy_stringify_js (hashed_js (?C ! 1)))"
    using s by (simp add: toy_sha256_js_def)
  have i: "(1::nat) \<le> 1" "1 < length ?C" by simp_all
  have "isChainValid_js 536870888 toy_sha256_js toy_stringify_js
          (?C[1 := mutate_js (SetNonce_js (Finite 0)) (?C ! 1)]) = Inr False"
    by (rule mutation_js_invalidates [OF v i ch]) (use s h in blast)+
  then show ?thesis using v i ch s h by blast
qed

text \<open>
  C8 as the specification words it fails for \<^verbatim>\<open>JSON.stringify\<close>, whatever the digest,
  the text of a finite number and the quoting of a string are: in the chain of a first
  block and a block of difficulty 0 with the payload \<^verbatim>\<open>null\<close>, which carries the hash of
  its own fields, writing \<^verbatim>\<open>Infinity\<close> (the value of the JSON literal \<^verbatim>\<open>1e400\<close>) into
  the payload changes the field and leaves the serialization as it was, so no two distinct
  serializations are involved, and \<open>isChainValid\<close> stays true.
\<close>

theorem mutation_claim_counterexample:
  "\<forall>maxLength sha256 numberToString quote.
     isChainValid_js maxLength sha256 (JSON_stringify numberToString quote)
       [first_js (Finite 0),
        honest_js sha256 (JSON_stringify numberToString quote) (Finite 1) VNull (Finite 0)
          (first_js (Finite 0))] = Inr True
     \<and> changes_js (SetData_js (VNum PosInf))
         (honest_js sha256 (JSON_stringify numberToString quote) (Finite 1) VNull (Finite 0)
            (first_js (Finite 0)))
     \<and> JSON_stringify numberToString quote
         (hashed_js (mutate_js (SetData_js (VNum PosInf))
            (honest_js sha256 (JSON_stringify numberToString quote) (Finite 1) VNull (Finite 0)
               (first_js (Finite 0)))))
       = JSON_stringify numberToString quote
           (hashed_js (honest_js sha256 (JSON_stringify numberToString quote) (Finite 1) VNull
              (Finite 0) (first_js (Finite 0))))
     \<and> isChainValid_js maxLength sha256 (JSON_stringify numberToString quote)
         ([first_js (Finite 0),
           honest_js sha256 (JSON_stringify numberToString quote) (Finite 1) VNull (Finite 0)
             (first_js (Finite 0))]
          [1 := mutate_js (SetData_js (VNum PosInf))
             (honest_js sha256 (JSON_stringify numberToString quote) (Finite 1) VNull (Finite 0)
                (first_js (Finite 0)))]) = Inr True"
proof (intro allI conjI)
  fix maxLength :: nat and sha256 :: "string \<Rightarrow> string"
    and numberToString :: "rat \<Rightarrow> string" and quote :: "string \<Rightarrow> string"
  let ?str = "JSON_stringify numberToString quote"
  let ?p = "first_js (Finite 0)"
  let ?b = "honest_js sha256 ?str (Finite 1) VNull (Finite 0) ?p"
  let ?b' = "mutate_js (SetData_js (VNum PosInf)) ?b"
  have same: "?str (hashed_js ?b') = ?str (hashed_js ?b)"
    by (simp add: honest_js_def payload_js_def)
  have ok: "isValidNewBlock_js maxLength sha256 ?str ?b ?p = Inr True"
    by (simp add: honest_js_cases first_js_def js_add1_0 zero_count_examples(4))
  have ok': "isValidNewBlock_js maxLength sha256 ?str ?b' ?p = Inr True"
  proof -
    have "sha256 (?str (hashed_js ?b')) = hash_js ?b'"
      unfolding same by (simp add: honest_js_def calculateHash_js_def)
    moreover have "index_js ?b' = js_add1 (index_js ?p)" "prevHash_js ?b' = hash_js ?p"
      "zero_count maxLength (difficulty_js ?b') = Some 0"
      by (simp_all add: honest_js_def first_js_def js_add1_0 zero_count_examples(4))
    ultimately show ?thesis by (simp only: isValidNewBlock_js_cases) simp
  qed
  show "isChainValid_js maxLength sha256 ?str [?p, ?b] = Inr True"
    by (simp only: isChainValid_js_pair ok)
  show "changes_js (SetData_js (VNum PosInf)) ?b"
    by (simp add: honest_js_def)
  show "?str (hashed_js ?b') = ?str (hashed_js ?b)" by (rule same)
  have "[?p, ?b][1 := ?b'] = [?p, ?b']" by simp
  then show "isChainValid_js maxLength sha256 ?str ([?p, ?b][1 := ?b']) = Inr True"
    by (simp only: isChainValid_js_pair ok')
qed

subsection \<open>The blocks of the node's own mining\<close>

text \<open>
  On blocks with natural numbers in their fields, with indices below \<open>2^53\<close> and
  difficulties up to the longest string length, the functions over numbers return what the
  functions over natural numbers return; so does the search, when it returns a nonce up to
  \<open>2^53\<close>.
\<close>

lemma calculateHash_js_typed:
  "calculateHash_js sha256 stringify (Finite (of_nat idx)) (Finite (of_nat ts)) (js_of_json dat) ph
       (Finite (of_nat n)) (Finite (of_nat d)) =
     calculateHash sha256 (\<lambda>j. stringify (js_of_json j)) idx ts dat ph n d"
  by (simp add: calculateHash_js_def calculateHash_def payload_js_def payload_def)

lemma isValidNewBlock_js_typed:
  assumes "index p < 2 ^ 53" and "difficulty c \<le> maxLength"
  shows "isValidNewBlock_js maxLength sha256 stringify (js_of_Block c) (js_of_Block p) =
           Inr (isValidNewBlock sha256 (\<lambda>j. stringify (js_of_json j)) c p)"
proof -
  have cases: "isValidNewBlock_js maxLength sha256 stringify (js_of_Block c) (js_of_Block p) =
     (if Finite (of_nat (index c)) = js_add1 (Finite (of_nat (index p))) \<and> prevHash c = hash p
         \<and> calculateHash_js sha256 stringify (Finite (of_nat (index c))) (Finite (of_nat (timestamp c)))
              (js_of_json (data c)) (prevHash c) (Finite (of_nat (nonce c)))
              (Finite (of_nat (difficulty c))) = hash c
      then (case zero_count maxLength (Finite (of_nat (difficulty c))) of
              None \<Rightarrow> Inl RangeError
            | Some n \<Rightarrow> Inr (n \<le> leadingZeros (hash c)))
      else Inr False)"
    by (auto simp: isValidNewBlock_js_cases js_of_Block_def calculateHash_js_def split: option.splits)
  have idx: "(Finite (of_nat (index c)) = js_add1 (Finite (of_nat (index p)))) = (index c = index p + 1)"
    unfolding js_add1_nat [OF assms(1)] by (simp only: number.inject of_nat_eq_iff Suc_eq_plus1)
  have z: "zero_count maxLength (Finite (of_nat (difficulty c))) = Some (difficulty c)"
    using assms(2) by (simp add: zero_count_of_nat)
  show ?thesis
    unfolding cases idx z calculateHash_js_typed
    by (auto simp: isValidNewBlock_checks startsWith_target)
qed

lemma isChainValid_js_loop_bools:
  assumes "\<forall>j. i \<le> j \<and> j < length c \<longrightarrow>
             isValidNewBlock_js maxLength sha256 stringify (c ! j) (c ! (j - 1)) = Inr (B j)"
  shows "isChainValid_js_loop maxLength sha256 stringify c i =
           Inr (\<forall>j. i \<le> j \<and> j < length c \<longrightarrow> B j)"
  using assms
proof (induction "length c - i" arbitrary: i)
  case 0
  then have "\<not> i < length c" by simp
  then show ?case by (subst isChainValid_js_loop.simps) auto
next
  case (Suc x)
  then have lt: "i < length c" by simp
  from Suc.hyps(2) have "x = length c - (i + 1)" by simp
  moreover have "\<forall>j. i + 1 \<le> j \<and> j < length c \<longrightarrow>
             isValidNewBlock_js maxLength sha256 stringify (c ! j) (c ! (j - 1)) = Inr (B j)"
    using Suc.prems by simp
  ultimately have IH: "isChainValid_js_loop maxLength sha256 stringify c (i + 1) =
           Inr (\<forall>j. i + 1 \<le> j \<and> j < length c \<longrightarrow> B j)"
    by (rule Suc.hyps(1))
  from Suc.prems lt
  have here: "isValidNewBlock_js maxLength sha256 stringify (c ! i) (c ! (i - 1)) = Inr (B i)"
    by simp
  have "isChainValid_js_loop maxLength sha256 stringify c i =
          Inr (B i \<and> (\<forall>j. i + 1 \<le> j \<and> j < length c \<longrightarrow> B j))"
    using lt here IH by (subst isChainValid_js_loop.simps) simp
  then show ?case
    using all_from_split [OF lt, of B] by simp
qed

lemma isChainValid_js_typed:
  assumes "\<forall>b \<in> set C. index b < 2 ^ 53 \<and> difficulty b \<le> maxLength"
  shows "isChainValid_js maxLength sha256 stringify (map js_of_Block C) =
           Inr (isChainValid sha256 (\<lambda>j. stringify (js_of_json j)) C)"
proof (cases "C = []")
  case True
  then show ?thesis by (simp add: isChainValid_js_def isChainValid_iff)
next
  case False
  have pairs: "\<forall>j. 1 \<le> j \<and> j < length (map js_of_Block C) \<longrightarrow>
      isValidNewBlock_js maxLength sha256 stringify (map js_of_Block C ! j) (map js_of_Block C ! (j - 1))
        = Inr (isValidNewBlock sha256 (\<lambda>j. stringify (js_of_json j)) (C ! j) (C ! (j - 1)))"
  proof (intro allI impI)
    fix j
    assume j: "1 \<le> j \<and> j < length (map js_of_Block C)"
    then have lt: "j < length C" "j - 1 < length C" by auto
    from lt have in1: "C ! j \<in> set C" and in0: "C ! (j - 1) \<in> set C" by simp_all
    from in0 assms have "index (C ! (j - 1)) < 2 ^ 53" by blast
    moreover from in1 assms have "difficulty (C ! j) \<le> maxLength" by blast
    ultimately have "isValidNewBlock_js maxLength sha256 stringify (js_of_Block (C ! j))
        (js_of_Block (C ! (j - 1)))
        = Inr (isValidNewBlock sha256 (\<lambda>j. stringify (js_of_json j)) (C ! j) (C ! (j - 1)))"
      by (rule isValidNewBlock_js_typed)
    moreover from lt have "map js_of_Block C ! j = js_of_Block (C ! j)"
      "map js_of_Block C ! (j - 1) = js_of_Block (C ! (j - 1))" by (simp_all only: nth_map)
    ultimately show "isValidNewBlock_js maxLength sha256 stringify (map js_of_Block C ! j)
        (map js_of_Block C ! (j - 1))
        = Inr (isValidNewBlock sha256 (\<lambda>j. stringify (js_of_json j)) (C ! j) (C ! (j - 1)))"
      by simp
  qed
  from isChainValid_js_loop_bools [OF pairs] False
  show ?thesis by (simp add: isChainValid_js_def isChainValid_iff)
qed

lemma proofOfWork_js_typed:
  assumes run: "proofOfWork sha256 (\<lambda>j. stringify (js_of_json j)) idx ts dat ph d = Some (n, h)"
    and "n \<le> 2 ^ 53" and "d \<le> maxLength"
  shows "proofOfWork_js maxLength sha256 stringify (Finite (of_nat idx)) (Finite (of_nat ts))
           (js_of_json dat) ph (Finite (of_nat d)) = Some (Inr (Finite (of_nat n), h))"
proof -
  let ?str = "\<lambda>j. stringify (js_of_json j)"
  let ?H = "\<lambda>k. calculateHash sha256 ?str idx ts dat ph k d"
  from proofOfWork_sound [OF run] have h: "h = ?H n" and hit: "d \<le> leadingZeros (?H n)"
    by (auto simp: startsWith_target)
  have least: "\<forall>k<n. \<not> d \<le> leadingZeros (?H k)"
  proof (intro allI impI notI)
    fix k
    assume k: "k < n" and "d \<le> leadingZeros (?H k)"
    define m where "m = (LEAST k. d \<le> leadingZeros (?H k))"
    have m_hit: "d \<le> leadingZeros (?H m)"
      unfolding m_def using \<open>d \<le> leadingZeros (?H k)\<close> by (rule LeastI)
    have "m \<le> k" unfolding m_def using \<open>d \<le> leadingZeros (?H k)\<close> by (rule Least_le)
    have "\<forall>j<m. \<not> d \<le> leadingZeros (?H j)" unfolding m_def using not_less_Least by blast
    from proofOfWork_least [OF m_hit this] run have "m = n" by simp
    with \<open>m \<le> k\<close> k show False by simp
  qed
  have z: "zero_count maxLength (Finite (of_nat d)) = Some d"
    using assms(3) by (simp add: zero_count_of_nat)
  have "proofOfWork_js maxLength sha256 stringify (Finite (of_nat idx)) (Finite (of_nat ts))
           (js_of_json dat) ph (Finite (of_nat d)) =
        Some (Inr (Finite (of_nat n),
          calculateHash_js sha256 stringify (Finite (of_nat idx)) (Finite (of_nat ts)) (js_of_json dat) ph
            (Finite (of_nat n)) (Finite (of_nat d))))"
    using z assms(2) hit least
    by (intro proofOfWork_js_least) (simp_all only: calculateHash_js_typed)
  then show ?thesis by (simp only: calculateHash_js_typed h)
qed

end
